theory Spec2Isabelle
  imports Main "HOL-Library.AList" "HOL-Library.Multiset"
begin

section \<open>The generation client: one request with retry and backoff\<close>

text \<open>
  Both content scripts (the OpenAI variant and \<^verbatim>\<open>content.js\<close>) talk to the backend through
  the same loop, copied into \<^verbatim>\<open>fetchRewrittenText\<close>, \<^verbatim>\<open>createSummary\<close> and
  \<^verbatim>\<open>fetchSummaryText\<close>:
  \<^verbatim>\<open>
    let response;
    for (let i = 0; i < 3; i++) {
        try {
            response = await fetch(apiUrl, ...);
            if (response.ok) break;
            if (response.status === 429) {
                await new Promise(resolve => setTimeout(resolve, Math.pow(2, i) * 1000));
                continue;
            } else {
                throw new Error(`API error: ${response.statusText}`);
            }
        } catch (e) {
            if (i === 2) throw e;
            await new Promise(resolve => setTimeout(resolve, Math.pow(2, i) * 1000));
        }
    }
    if (!response || !response.ok) { throw new Error('Failed to fetch ... after multiple retries.'); }
  \<close>
  The backend is an oracle that answers the attempt number \<open>i\<close>. The value found at
  \<^verbatim>\<open>choices?.[0]?.message?.content\<close> (or the \<^verbatim>\<open>candidates\<close> path of \<^verbatim>\<open>content.js\<close>) is
  \<open>Content None\<close> when it is undefined; a body that \<^verbatim>\<open>response.json()\<close> rejects is
  \<open>Unreadable\<close>.
\<close>

datatype body = Unreadable string | Content "string option"

record response =
  status :: nat
  statusText :: string
  payload :: body

datatype outcome = Rejected string | Answered response

type_synonym backend = "nat \<Rightarrow> outcome"

text \<open>The errors the client throws, told apart by how the source builds them.\<close>

datatype error =
    ApiError string
  | RetriesFailed
  | FetchRejected string
  | JsonRejected string
  | NotEnoughContent

text \<open>What the loop does to the outside world, in order.\<close>

datatype io = Fetched nat outcome | Waited nat

definition ok :: "response \<Rightarrow> bool" where
  "ok r = (200 \<le> status r \<and> status r \<le> 299)"

definition backoff :: "nat \<Rightarrow> nat" where
  "backoff i = 2 ^ i * 1000"

text \<open>
  \<open>retryLoop\<close> is the \<^verbatim>\<open>for\<close> loop with its variable \<open>i\<close>, the variable
  \<^verbatim>\<open>response\<close> and the trace so far; it returns the error thrown out of the loop, or the
  value of \<^verbatim>\<open>response\<close> when the loop is left. The \<^verbatim>\<open>throw\<close> of the \<^verbatim>\<open>else\<close> branch
  stands inside the \<^verbatim>\<open>try\<close> block, so the \<^verbatim>\<open>catch (e)\<close> clause receives it exactly as it
  receives a rejected \<^verbatim>\<open>fetch\<close>: on the last attempt (\<open>i = 2\<close>) it rethrows, otherwise it
  waits \<open>2 ^ i * 1000\<close> ms and the loop goes on.
\<close>

function retryLoop ::
  "backend \<Rightarrow> nat \<Rightarrow> response option \<Rightarrow> io list \<Rightarrow> (error + response option) \<times> io list" where
  "retryLoop be i resp tr =
     (if i < 3 then
        (case be i of
           Rejected e \<Rightarrow>
             (if i = 2 then (Inl (FetchRejected e), tr @ [Fetched i (be i)])
              else retryLoop be (i + 1) resp (tr @ [Fetched i (be i), Waited (backoff i)]))
         | Answered r \<Rightarrow>
             (if ok r then (Inr (Some r), tr @ [Fetched i (be i)])
              else if status r = 429 then
                retryLoop be (i + 1) (Some r) (tr @ [Fetched i (be i), Waited (backoff i)])
              else if i = 2 then (Inl (ApiError (statusText r)), tr @ [Fetched i (be i)])
              else retryLoop be (i + 1) (Some r) (tr @ [Fetched i (be i), Waited (backoff i)])))
      else (Inr resp, tr))"
  by pat_completeness auto
termination
  by (relation "measure (\<lambda>(be, i, resp, tr). 3 - i)") auto

declare retryLoop.simps [simp del]

text \<open>The check after the loop: \<^verbatim>\<open>if (!response || !response.ok) throw ...\<close>.\<close>

definition fetchWithRetry :: "backend \<Rightarrow> (error + response) \<times> io list" where
  "fetchWithRetry be =
     (case retryLoop be 0 None [] of
        (Inl e, tr) \<Rightarrow> (Inl e, tr)
      | (Inr None, tr) \<Rightarrow> (Inl RetriesFailed, tr)
      | (Inr (Some r), tr) \<Rightarrow> (if ok r then (Inr r, tr) else (Inl RetriesFailed, tr)))"

definition waits :: "io list \<Rightarrow> nat list" where
  "waits tr = concat (map (\<lambda>e. case e of Waited ms \<Rightarrow> [ms] | Fetched _ _ \<Rightarrow> []) tr)"

definition fetches :: "io list \<Rightarrow> outcome list" where
  "fetches tr = concat (map (\<lambda>e. case e of Fetched _ out \<Rightarrow> [out] | Waited _ \<Rightarrow> []) tr)"

definition succeeded :: "outcome \<Rightarrow> bool" where
  "succeeded out = (case out of Answered r \<Rightarrow> ok r | Rejected _ \<Rightarrow> False)"

section \<open>Strings\<close>

text \<open>
  A JavaScript string is modelled by a \<^typ>\<open>string\<close>, one \<^typ>\<open>char\<close> for each code unit, which
  covers the code units 0 to 255. In that range the white space of \<^verbatim>\<open>String.prototype.trim\<close>
  and of the regular expression class \<^verbatim>\<open>\s\<close> is tab, line feed, vertical tab, form feed,
  carriage return, space and the no-break space.
\<close>

definition isSpace :: "char \<Rightarrow> bool" where
  "isSpace c = (c \<in> {CHR 0x09, CHR 0x0A, CHR 0x0B, CHR 0x0C, CHR 0x0D, CHR 0x20, CHR 0xA0})"

definition trim :: "string \<Rightarrow> string" where
  "trim s = rev (dropWhile isSpace (rev (dropWhile isSpace s)))"

definition isQuote :: "char \<Rightarrow> bool" where
  "isQuote c = (c = CHR 0x22 \<or> c = CHR 0x27)"

text \<open>\<^verbatim>\<open>.replace(/^["']|["']$/g, '')\<close>: one quote character off the front, then one off the end.\<close>

definition stripQuotes :: "string \<Rightarrow> string" where
  "stripQuotes s =
     (let s1 = (case s of c # cs \<Rightarrow> if isQuote c then cs else s | [] \<Rightarrow> s)
      in if s1 \<noteq> [] \<and> isQuote (last s1) then butlast s1 else s1)"

section \<open>The two call sites of the OpenAI variant\<close>

text \<open>
  \<^verbatim>\<open>fetchRewrittenText(originalText, targetLevel, apiKey, isTitle)\<close>. The level, the key and
  the title flag only shape the request, which the backend oracle stands for.
  \<^verbatim>\<open>
    const result = await response.json();
    const rewrittenText = result.choices?.[0]?.message?.content;
    if (rewrittenText) { return rewrittenText.trim().replace(/^["']|["']$/g, ''); }
    return originalText; // Return original on failure
  \<close>
\<close>

definition fetchRewrittenText :: "string \<Rightarrow> backend \<Rightarrow> (error + string) \<times> io list" where
  "fetchRewrittenText originalText be =
     (case fetchWithRetry be of
        (Inl e, tr) \<Rightarrow> (Inl e, tr)
      | (Inr r, tr) \<Rightarrow>
          (case payload r of
             Unreadable m \<Rightarrow> (Inl (JsonRejected m), tr)
           | Content None \<Rightarrow> (Inr originalText, tr)
           | Content (Some rewrittenText) \<Rightarrow>
               (if rewrittenText \<noteq> [] then (Inr (stripQuotes (trim rewrittenText)), tr)
                else (Inr originalText, tr))))"

text \<open>
  \<^verbatim>\<open>fetchRewrittenText(apiKey, originalText, targetLevel)\<close> of \<^verbatim>\<open>content.js\<close> returns what it
  finds in the body, \<^verbatim>\<open>undefined\<close> included; its caller patches the element only under
  \<^verbatim>\<open>if (newText)\<close>.
\<close>

definition fetchRewrittenText_cjs :: "backend \<Rightarrow> (error + string option) \<times> io list" where
  "fetchRewrittenText_cjs be =
     (case fetchWithRetry be of
        (Inl e, tr) \<Rightarrow> (Inl e, tr)
      | (Inr r, tr) \<Rightarrow>
          (case payload r of
             Unreadable m \<Rightarrow> (Inl (JsonRejected m), tr)
           | Content text \<Rightarrow> (Inr text, tr)))"

text \<open>
  \<^verbatim>\<open>createSummary\<close> ends in
  \<^verbatim>\<open>return data.choices?.[0]?.message?.content?.trim() || 'Summary failed.';\<close>
\<close>

definition createSummary :: "backend \<Rightarrow> (error + string) \<times> io list" where
  "createSummary be =
     (case fetchWithRetry be of
        (Inl e, tr) \<Rightarrow> (Inl e, tr)
      | (Inr r, tr) \<Rightarrow>
          (case payload r of
             Unreadable m \<Rightarrow> (Inl (JsonRejected m), tr)
           | Content None \<Rightarrow> (Inr ''Summary failed.'', tr)
           | Content (Some text) \<Rightarrow>
               (if trim text \<noteq> [] then (Inr (trim text), tr)
                else (Inr ''Summary failed.'', tr))))"

text \<open>
  What a command answers to the popup, and what it sends on the extension's message channel.
  \<open>Failed e\<close> is \<^verbatim>\<open>{ success: false, error: error.message }\<close> for the thrown error \<open>e\<close>.
\<close>

datatype reply = Rewritten nat | Summarized nat | Failed error

datatype message = ProgressUpdate nat | Download string

definition surfacesFailure :: "reply \<Rightarrow> bool" where
  "surfacesFailure r = (case r of Failed _ \<Rightarrow> True | _ \<Rightarrow> False)"

text \<open>
  \<^verbatim>\<open>summarizePageContent\<close>. The page enters through the text that \<^verbatim>\<open>extractMainContent()\<close>
  returns.
  \<^verbatim>\<open>
    try {
        const mainContent = extractMainContent();
        if (!mainContent || mainContent.trim().length < 100) {
            throw new Error('Not enough content found to summarize');
        }
        chrome.runtime.sendMessage({ action: 'progressUpdate', progress: 25 });
        const summary = await createSummary(mainContent, targetLevel, apiKey);
        chrome.runtime.sendMessage({ action: 'progressUpdate', progress: 75 });
        downloadSummaryAsText(summary, targetLevel);
        chrome.runtime.sendMessage({ action: 'progressUpdate', progress: 100 });
        return { success: true, summaryLength: summary.length };
    } catch (error) {
        return { success: false, error: error.message };
    }
  \<close>
\<close>

definition summarizePageContent :: "string \<Rightarrow> backend \<Rightarrow> reply \<times> message list \<times> io list" where
  "summarizePageContent mainContent be =
     (if mainContent = [] \<or> length (trim mainContent) < 100
      then (Failed NotEnoughContent, [], [])
      else
        (case createSummary be of
           (Inl e, tr) \<Rightarrow> (Failed e, [ProgressUpdate 25], tr)
         | (Inr summary, tr) \<Rightarrow>
             (Summarized (length summary),
              [ProgressUpdate 25, ProgressUpdate 75, Download summary, ProgressUpdate 100], tr)))"

section \<open>More of JavaScript's strings and the regular expressions of the selection\<close>

definition isDigit :: "char \<Rightarrow> bool" where
  "isDigit c = (c \<in> set ''0123456789'')"

definition isLetter :: "char \<Rightarrow> bool" where
  "isLetter c = (c \<in> set ''abcdefghijklmnopqrstuvwxyzABCDEFGHIJKLMNOPQRSTUVWXYZ'')"

text \<open>
  \<^verbatim>\<open>toLowerCase\<close> on the code units 0 to 255: the letters A to Z (\<open>foldChar\<close>), and the
  capital letters of Latin-1 (192 to 222 without the multiplication sign 215). Under the
  flag \<^verbatim>\<open>i\<close> (without \<^verbatim>\<open>u\<close>) of a regular expression a code unit above 127 never matches an
  ASCII letter of the pattern, so there only A to Z fold (\<open>foldAscii\<close>).
\<close>

definition foldChar :: "char \<Rightarrow> char" where
  "foldChar c =
     (case map_of (zip ''ABCDEFGHIJKLMNOPQRSTUVWXYZ'' ''abcdefghijklmnopqrstuvwxyz'') c of
        Some l \<Rightarrow> l
      | None \<Rightarrow> c)"

definition toLowerChar :: "char \<Rightarrow> char" where
  "toLowerChar c =
     (let n = (of_char c :: nat)
      in if 192 \<le> n \<and> n \<le> 222 \<and> n \<noteq> 215 then char_of (n + 32) else foldChar c)"

definition toLowerCase :: "string \<Rightarrow> string" where
  "toLowerCase s = map toLowerChar s"

definition foldAscii :: "string \<Rightarrow> string" where
  "foldAscii s = map foldChar s"

definition startsWith :: "string \<Rightarrow> string \<Rightarrow> bool" where
  "startsWith s w = (take (length w) s = w)"

text \<open>\<^verbatim>\<open>String.prototype.includes\<close>.\<close>

fun includesStr :: "string \<Rightarrow> string \<Rightarrow> bool" where
  "includesStr [] w = (w = [])"
| "includesStr (c # cs) w = (startsWith (c # cs) w \<or> includesStr cs w)"

text \<open>An unanchored pattern is tried at every position, the end included.\<close>

fun anywhere :: "(string \<Rightarrow> bool) \<Rightarrow> string \<Rightarrow> bool" where
  "anywhere p [] = p []"
| "anywhere p (c # cs) = (p (c # cs) \<or> anywhere p cs)"

text \<open>\<^verbatim>\<open>\d{1,2}\<close>: the rests of the input after one digit and after two.\<close>

definition digits12 :: "string \<Rightarrow> string list" where
  "digits12 s =
     (case s of
        [] \<Rightarrow> []
      | a # r \<Rightarrow>
          (if isDigit a
           then (case r of
                   [] \<Rightarrow> [r]
                 | b # r' \<Rightarrow> if isDigit b then [r', r] else [r])
           else []))"

definition slash :: "string \<Rightarrow> string option" where
  "slash s = (case s of [] \<Rightarrow> None | c # r \<Rightarrow> if c = CHR ''/'' then Some r else None)"

text \<open>\<^verbatim>\<open>/\d{1,2}\/\d{1,2}\/\d{4}/\<close> at the front of the input.\<close>

definition dateAt :: "string \<Rightarrow> bool" where
  "dateAt s =
     list_ex (\<lambda>r1. case slash r1 of
                     None \<Rightarrow> False
                   | Some r2 \<Rightarrow>
                       list_ex (\<lambda>r3. case slash r3 of
                                       None \<Rightarrow> False
                                     | Some r4 \<Rightarrow> 4 \<le> length r4 \<and> list_all isDigit (take 4 r4))
                         (digits12 r2))
       (digits12 s)"

text \<open>\<^verbatim>\<open>/^(by|posted|published|updated):?/i\<close>.\<close>

definition bylineAt :: "string \<Rightarrow> bool" where
  "bylineAt s = list_ex (startsWith (foldAscii s)) [''by'', ''posted'', ''published'', ''updated'']"

text \<open>\<^verbatim>\<open>/^\d+\s*(comments|shares|likes)$/i\<close>.\<close>

definition counterLine :: "string \<Rightarrow> bool" where
  "counterLine s =
     (takeWhile isDigit s \<noteq> [] \<and>
      foldAscii (dropWhile isSpace (dropWhile isDigit s)) \<in> set [''comments'', ''shares'', ''likes''])"

text \<open>
  \<^verbatim>\<open>/^[A-Z][a-z]+day,\s+[A-Z][a-z]+\s+\d{1,2}/i\<close>: a run of at least five letters that ends
  in \<^verbatim>\<open>day\<close>, a comma, white space, a run of at least two letters, white space, a digit.
\<close>

definition datelineAt :: "string \<Rightarrow> bool" where
  "datelineAt s =
     (let w1 = takeWhile isLetter s; r1 = dropWhile isLetter s;
          r2 = drop 1 r1;
          r3 = dropWhile isSpace r2;
          w2 = takeWhile isLetter r3; r4 = dropWhile isLetter r3;
          r5 = dropWhile isSpace r4
      in 5 \<le> length w1 \<and> foldAscii (drop (length w1 - 3) w1) = ''day''
         \<and> take 1 r1 = '',''
         \<and> takeWhile isSpace r2 \<noteq> []
         \<and> 2 \<le> length w2
         \<and> takeWhile isSpace r4 \<noteq> []
         \<and> list_ex isDigit (take 1 r5))"

definition metaPatterns :: "(string \<Rightarrow> bool) list" where
  "metaPatterns = [anywhere dateAt, bylineAt, counterLine, datelineAt]"

section \<open>The page\<close>

text \<open>
  The content of an element is a list of nodes; a node is a text node or an element with its
  local name, its attributes and its children. Markup is a string.
\<close>

datatype node = Text string | Elem string "(string \<times> string) list" "node list"

type_synonym markup = string

fun textOf :: "node \<Rightarrow> string" where
  "textOf (Text s) = s"
| "textOf (Elem t as cs) = concat (map textOf cs)"

text \<open>\<^verbatim>\<open>querySelectorAll('a')\<close> below a node: every anchor, in document order.\<close>

fun anchorsOf :: "node \<Rightarrow> node list" where
  "anchorsOf (Text s) = []"
| "anchorsOf (Elem t as cs) =
     (if t = ''a'' then [Elem t as cs] else []) @ concat (map anchorsOf cs)"

text \<open>
  What a selector reads of an element or of one of its ancestors: the local name, the class
  list and the \<^verbatim>\<open>role\<close> attribute.
\<close>

record simple =
  localName :: string
  classList :: "string list"
  roleOf :: "string option"

text \<open>
  An element the scripts query. Its subtree is \<open>childNodes\<close>; the elements of the page are
  taken to have disjoint subtrees, as paragraphs and headings do. The computed style and the
  box are the browser's answers; \<open>styleTransition\<close> and \<open>styleOpacity\<close> are the inline style;
  \<open>opacityTimers\<close> counts the pending \<^verbatim>\<open>setTimeout(() => { element.style.opacity = '1' },
  100)\<close> callbacks; \<open>inBody\<close> is \<^verbatim>\<open>document.body.contains(element)\<close>.
\<close>

record element =
  tagName :: string
  className :: string
  childNodes :: "node list"
  role :: "string option"
  onclick :: bool
  ancestors :: "simple list"
  display :: string
  visibility :: string
  opacity :: string
  offsetWidth :: nat
  offsetHeight :: nat
  styleTransition :: string
  styleOpacity :: string
  opacityTimers :: nat
  inBody :: bool

definition textContent :: "element \<Rightarrow> string" where
  "textContent e = concat (map textOf (childNodes e))"

text \<open>
  Reading \<^verbatim>\<open>element.innerHTML\<close> serialises the children of the element, and assigning a string
  to it runs the HTML fragment parser on the string, in the context of the element, and puts
  the nodes it returns in the place of the children. The serialiser and the parser belong to
  the browser, not to the scripts: they are parameters of the model, as the backend is, each
  a function of the tag name of the element and of the children or the string. What the
  parser makes of the empty string is known: no node.
\<close>

record browser =
  serialize :: "string \<Rightarrow> node list \<Rightarrow> markup"
  parseFragment :: "string \<Rightarrow> markup \<Rightarrow> node list"

definition innerHTML :: "browser \<Rightarrow> element \<Rightarrow> markup" where
  "innerHTML ua e = serialize ua (tagName e) (childNodes e)"

definition setInnerHTML :: "browser \<Rightarrow> element \<Rightarrow> markup \<Rightarrow> element" where
  "setInnerHTML ua e html =
     e\<lparr>childNodes := (if html = [] then [] else parseFragment ua (tagName e) html)\<rparr>"

definition querySelectorAll_a :: "element \<Rightarrow> node list" where
  "querySelectorAll_a e = concat (map anchorsOf (childNodes e))"

text \<open>The class attribute split at HTML's white space.\<close>

definition isHtmlSpace :: "char \<Rightarrow> bool" where
  "isHtmlSpace c = (c \<in> {CHR 0x09, CHR 0x0A, CHR 0x0C, CHR 0x0D, CHR 0x20})"

fun splitTokens :: "string \<Rightarrow> string \<Rightarrow> string list" where
  "splitTokens cur [] = (if cur = [] then [] else [cur])"
| "splitTokens cur (c # cs) =
     (if isHtmlSpace c then (if cur = [] then splitTokens [] cs else cur # splitTokens [] cs)
      else splitTokens (cur @ [c]) cs)"

definition self :: "element \<Rightarrow> simple" where
  "self e = \<lparr>localName = toLowerCase (tagName e),
             classList = splitTokens [] (className e),
             roleOf = role e\<rparr>"

datatype selector = ByTag string | ByClass string | ByRole string

fun matches :: "simple \<Rightarrow> selector \<Rightarrow> bool" where
  "matches x (ByTag t) = (localName x = t)"
| "matches x (ByClass c) = (c \<in> set (classList x))"
| "matches x (ByRole r) = (roleOf x = Some r)"

text \<open>
  \<^verbatim>\<open>element.closest(sel) !== null\<close> for a selector list: the element itself or one of its
  ancestors matches one of the selectors.
\<close>

definition closest :: "element \<Rightarrow> selector list \<Rightarrow> bool" where
  "closest e sels = list_ex (\<lambda>x. list_ex (matches x) sels) (self e # ancestors e)"

section \<open>Content selection of the OpenAI variant\<close>

text \<open>\<^verbatim>\<open>/^h[1-6]$/\<close> on the lower-cased tag name, \<^verbatim>\<open>/^H[1-6]$/i\<close> on the tag name.\<close>

definition isHeadingTag :: "string \<Rightarrow> bool" where
  "isHeadingTag t = (t \<in> set [''h1'', ''h2'', ''h3'', ''h4'', ''h5'', ''h6''])"

definition isHeadingTagCI :: "string \<Rightarrow> bool" where
  "isHeadingTagCI t = isHeadingTag (foldAscii t)"

definition isInMainContent :: "element \<Rightarrow> bool" where
  "isInMainContent e =
     (if list_ex (\<lambda>sel. closest e [sel])
           [ByTag ''main'', ByTag ''article'', ByRole ''main'', ByClass ''content'',
            ByClass ''main-content'', ByClass ''post-content'', ByClass ''article-content'',
            ByClass ''story-content'', ByClass ''entry-content'']
      then True
      else if list_ex (\<lambda>sel. closest e [sel])
           [ByTag ''header'', ByTag ''footer'', ByTag ''nav'', ByTag ''aside'',
            ByClass ''header'', ByClass ''footer'', ByClass ''nav'', ByClass ''sidebar'']
      then False
      else True)"

definition excludeClasses :: "string list" where
  "excludeClasses = [''meta'', ''time'', ''date'', ''author'', ''byline'', ''caption'',
                     ''label'', ''btn'', ''button'', ''icon'']"

definition shouldProcessElementStrict :: "element \<Rightarrow> bool" where
  "shouldProcessElementStrict e =
     (let tag = toLowerCase (tagName e);
          cls = toLowerCase (className e);
          text = trim (textContent e)
      in if length text < 30 \<and> \<not> isHeadingTag tag then False
         else if list_ex (includesStr cls) excludeClasses then False
         else if isHeadingTag tag \<or> tag = ''p'' then isInMainContent e
         else True)"

definition isRandomTextBlock :: "element \<Rightarrow> bool" where
  "isRandomTextBlock e =
     (let text = trim (textContent e)
      in if length text < 40 \<and> \<not> isHeadingTagCI (tagName e) then True
         else list_ex (\<lambda>pattern. pattern text) metaPatterns)"

definition isVisible :: "element \<Rightarrow> bool" where
  "isVisible e =
     (display e \<noteq> ''none'' \<and> visibility e \<noteq> ''hidden'' \<and> opacity e \<noteq> ''0''
      \<and> 0 < offsetWidth e \<and> 0 < offsetHeight e)"

definition isInNav :: "element \<Rightarrow> bool" where
  "isInNav e =
     closest e [ByTag ''nav'', ByClass ''nav'', ByClass ''navigation'', ByClass ''menu'',
                ByTag ''header'', ByClass ''header'', ByTag ''footer'', ByClass ''footer'',
                ByTag ''aside'', ByClass ''sidebar'']"

definition isInteractive :: "element \<Rightarrow> bool" where
  "isInteractive e =
     (tagName e = ''BUTTON'' \<or> tagName e = ''A'' \<or> role e = Some ''button'' \<or> onclick e)"

text \<open>The condition under which \<^verbatim>\<open>storeOriginalTexts\<close> records an element.\<close>

definition captures :: "element \<Rightarrow> bool" where
  "captures e =
     (shouldProcessElementStrict e \<and> textContent e \<noteq> [] \<and> 25 < length (trim (textContent e))
      \<and> isVisible e \<and> \<not> isInNav e \<and> \<not> isInteractive e \<and> \<not> isRandomTextBlock e)"

section \<open>The snapshot store of the OpenAI variant\<close>

text \<open>
  An element is known to the scripts by reference; the model's reference is the position of
  the element in the list of the page's elements, in document order. \<^verbatim>\<open>originalTexts\<close> is a
  \<^verbatim>\<open>Map\<close>, which keeps its entries in insertion order: an association list, where
  \<^const>\<open>AList.update\<close> is \<^verbatim>\<open>Map.prototype.set\<close> (the value of a key that is present is replaced in
  place, a new key goes to the end).
\<close>

record item =
  itemElement :: nat
  originalText :: string
  originalHTML :: markup
  itemTagName :: string

record session =
  originalTexts :: "(nat \<times> item) list"
  isRewritten :: bool
  document :: "element list"
  sent :: "message list"
  console :: "(nat \<times> error) list"

text \<open>
  \<^verbatim>\<open>document.querySelectorAll('p, h1, h2, h3, h4, h5, h6, article p, ...')\<close>: every selector of
  the list ends in a paragraph or heading tag.
\<close>

definition isTextTag :: "element \<Rightarrow> bool" where
  "isTextTag e = (toLowerCase (tagName e) \<in> set [''p'', ''h1'', ''h2'', ''h3'', ''h4'', ''h5'', ''h6''])"

definition textElements :: "element list \<Rightarrow> nat list" where
  "textElements doc = filter (\<lambda>h. isTextTag (doc ! h)) [0..<length doc]"

definition snapshot :: "browser \<Rightarrow> element list \<Rightarrow> nat \<Rightarrow> item" where
  "snapshot ua doc h =
     \<lparr>itemElement = h,
      originalText = textContent (doc ! h),
      originalHTML = innerHTML ua (doc ! h),
      itemTagName = toLowerCase (tagName (doc ! h))\<rparr>"

text \<open>The \<^verbatim>\<open>forEach\<close> of \<^verbatim>\<open>storeOriginalTexts\<close> with its counter \<^verbatim>\<open>index\<close>.\<close>

fun storeLoop :: "browser \<Rightarrow> element list \<Rightarrow> nat list \<Rightarrow> nat \<Rightarrow> (nat \<times> item) list \<Rightarrow> (nat \<times> item) list" where
  "storeLoop ua doc [] index m = m"
| "storeLoop ua doc (h # hs) index m =
     (if captures (doc ! h)
      then storeLoop ua doc hs (index + 1) (AList.update index (snapshot ua doc h) m)
      else storeLoop ua doc hs index m)"

text \<open>\<^verbatim>\<open>storeOriginalTexts\<close> starts with \<^verbatim>\<open>originalTexts.clear()\<close>.\<close>

definition storeOriginalTexts :: "browser \<Rightarrow> session \<Rightarrow> session" where
  "storeOriginalTexts ua st =
     st\<lparr>originalTexts := storeLoop ua (document st) (textElements (document st)) 0 []\<rparr>"

section \<open>Patching an element (OpenAI variant)\<close>

definition appendChild :: "element \<Rightarrow> node \<Rightarrow> element" where
  "appendChild e n = e\<lparr>childNodes := childNodes e @ [n]\<rparr>"

text \<open>
  \<^verbatim>\<open>
    const linksToPreserve = Array.from(element.querySelectorAll('a')).map(link => link.cloneNode(true));
    element.innerHTML = '';
    const trimmedNewText = newText.trim();
    element.appendChild(document.createTextNode(trimmedNewText));
    linksToPreserve.forEach(link => {
        element.appendChild(document.createTextNode(' '));
        element.appendChild(link);
    });
    element.style.transition = 'opacity 0.2s ease';
    element.style.opacity = '0.9';
    setTimeout(() => { element.style.opacity = '1'; }, 100);
  \<close>
  A deep clone is the same tree as a value.
\<close>

definition replaceElementTextSimple :: "browser \<Rightarrow> element \<Rightarrow> string \<Rightarrow> element" where
  "replaceElementTextSimple ua e newText =
     (let linksToPreserve = querySelectorAll_a e;
          e1 = setInnerHTML ua e [];
          trimmedNewText = trim newText;
          e2 = appendChild e1 (Text trimmedNewText);
          e3 = foldl (\<lambda>el link. appendChild (appendChild el (Text '' '')) link) e2 linksToPreserve
      in e3\<lparr>styleTransition := ''opacity 0.2s ease'', styleOpacity := ''0.9'',
             opacityTimers := opacityTimers e3 + 1\<rparr>)"

text \<open>The timer callbacks of an element, once they have run.\<close>

definition timersFired :: "element \<Rightarrow> element" where
  "timersFired e = (if 0 < opacityTimers e then e\<lparr>styleOpacity := ''1'', opacityTimers := 0\<rparr> else e)"

section \<open>The rewrite pipeline (OpenAI variant)\<close>

definition MAX_CONCURRENT_REQUESTS :: nat where
  "MAX_CONCURRENT_REQUESTS = 10"

text \<open>
  \<^verbatim>\<open>for (let i = 0; i < items.length; i += chunkSize) chunks.push(items.slice(i, i + chunkSize));\<close>
\<close>

function chunkLoop :: "'a list \<Rightarrow> nat \<Rightarrow> 'a list list \<Rightarrow> 'a list list" where
  "chunkLoop items i chunks =
     (if i < length items
      then chunkLoop items (i + MAX_CONCURRENT_REQUESTS)
             (chunks @ [take MAX_CONCURRENT_REQUESTS (drop i items)])
      else chunks)"
  by pat_completeness auto
termination
  by (relation "measure (\<lambda>(items, i, chunks). length items - i)")
     (auto simp: MAX_CONCURRENT_REQUESTS_def)

declare chunkLoop.simps [simp del]

text \<open>
  \<^verbatim>\<open>10 + Math.floor((processedElements / totalElements) * 80)\<close>. The source computes the
  quotient and the product in double precision; the model takes the exact value. Rounding is
  monotone, so the order of two progress values is the same in both.
\<close>

definition progressAfter :: "nat \<Rightarrow> nat \<Rightarrow> nat" where
  "progressAfter processedElements totalElements = 10 + (processedElements * 80) div totalElements"

text \<open>
  The callback that \<^verbatim>\<open>chunk.map\<close> runs for one entry. The backend has one oracle for each
  entry, \<open>be index\<close>. A failed request is caught and logged with \<^verbatim>\<open>console.error\<close>; the
  counter and the progress message follow in both cases.
  \<^verbatim>\<open>
    const originalText = item.originalText;
    if (originalText.trim().length > 10) {
        try {
            const rewrittenText = await fetchRewrittenText(originalText, targetLevel, apiKey, isTitle);
            replaceElementTextSimple(item.element, rewrittenText);
        } catch (error) { console.error(`Error rewriting element ${index}:`, error); }
    }
    processedElements++;
    const progress = 10 + Math.floor((processedElements / totalElements) * 80);
    chrome.runtime.sendMessage({ action: 'progressUpdate', progress: progress });
  \<close>
\<close>

definition rewriteItem ::
  "browser \<Rightarrow> (nat \<Rightarrow> backend) \<Rightarrow> nat \<Rightarrow> session \<times> nat \<Rightarrow> nat \<times> item \<Rightarrow> session \<times> nat" where
  "rewriteItem ua be totalElements acc entry =
     (let st = fst acc; processedElements = snd acc;
          index = fst entry; it = snd entry;
          h = itemElement it;
          st1 =
            (if 10 < length (trim (originalText it)) then
               (case fst (fetchRewrittenText (originalText it) (be index)) of
                  Inr rewrittenText \<Rightarrow>
                    st\<lparr>document :=
                         (document st)[h := replaceElementTextSimple ua (document st ! h) rewrittenText]\<rparr>
                | Inl e \<Rightarrow> st\<lparr>console := console st @ [(index, e)]\<rparr>)
             else st)
      in (st1\<lparr>sent := sent st1 @ [ProgressUpdate (progressAfter (processedElements + 1) totalElements)]\<rparr>,
          processedElements + 1))"

text \<open>
  The callbacks of one chunk run interleaved. Each one touches its own element, and the
  counter is incremented and the progress sent in one synchronous step, so the final page
  and the sequence of progress values are those of running the callbacks one after the other.
\<close>

definition rewriteTextElementsParallel :: "browser \<Rightarrow> (nat \<Rightarrow> backend) \<Rightarrow> session \<Rightarrow> session" where
  "rewriteTextElementsParallel ua be st =
     (let items = originalTexts st;
          totalElements = length items;
          chunks = chunkLoop items 0 []
      in fst (foldl (\<lambda>acc chunk. foldl (rewriteItem ua be totalElements) acc chunk) (st, 0) chunks))"

definition sendProgress :: "nat \<Rightarrow> session \<Rightarrow> session" where
  "sendProgress n st = st\<lparr>sent := sent st @ [ProgressUpdate n]\<rparr>"

text \<open>
  \<^verbatim>\<open>
    if (!isRewritten) { storeOriginalTexts(); }
    chrome.runtime.sendMessage({ action: 'progressUpdate', progress: 10 });
    await rewriteTextElementsParallel(targetLevel, apiKey);
    isRewritten = true;
    chrome.runtime.sendMessage({ action: 'progressUpdate', progress: 100 });
    return { success: true, elementsRewritten: originalTexts.size };
  \<close>
\<close>

definition rewritePageContent :: "browser \<Rightarrow> (nat \<Rightarrow> backend) \<Rightarrow> session \<Rightarrow> reply \<times> session" where
  "rewritePageContent ua be st =
     (let st1 = (if \<not> isRewritten st then storeOriginalTexts ua st else st);
          st2 = sendProgress 10 st1;
          st3 = rewriteTextElementsParallel ua be st2;
          st4 = st3\<lparr>isRewritten := True\<rparr>;
          st5 = sendProgress 100 st4
      in (Rewritten (length (originalTexts st5)), st5))"

text \<open>
  \<^verbatim>\<open>
    function resetPageContent() {
        if (!isRewritten) return;
        originalTexts.forEach(item => { item.element.innerHTML = item.originalHTML; });
        isRewritten = false;
    }
  \<close>
\<close>

definition restoreItem :: "browser \<Rightarrow> session \<Rightarrow> nat \<times> item \<Rightarrow> session" where
  "restoreItem ua st entry =
     (let it = snd entry; h = itemElement it
      in st\<lparr>document := (document st)[h := setInnerHTML ua (document st ! h) (originalHTML it)]\<rparr>)"

definition resetPageContent :: "browser \<Rightarrow> session \<Rightarrow> session" where
  "resetPageContent ua st =
     (if \<not> isRewritten st then st
      else (foldl (restoreItem ua) st (originalTexts st))\<lparr>isRewritten := False\<rparr>)"

section \<open>Snapshot and reset in \<^verbatim>\<open>content.js\<close>\<close>

text \<open>Here the \<^verbatim>\<open>Map\<close> has the element as its key and the markup as its value.\<close>

record session_cjs =
  originalTexts_cjs :: "(nat \<times> markup) list"
  isRewritten_cjs :: bool
  document_cjs :: "element list"
  sent_cjs :: "message list"
  console_cjs :: "(nat \<times> error) list"

definition isVisible_cjs :: "element \<Rightarrow> bool" where
  "isVisible_cjs e = (display e \<noteq> ''none'' \<and> visibility e \<noteq> ''hidden'' \<and> 0 < offsetHeight e)"

definition isInNav_cjs :: "element \<Rightarrow> bool" where
  "isInNav_cjs e = closest e [ByTag ''nav'', ByTag ''header'', ByTag ''footer'']"

definition has :: "'k \<Rightarrow> ('k \<times> 'v) list \<Rightarrow> bool" where
  "has k m = (k \<in> set (map fst m))"

text \<open>
  \<^verbatim>\<open>
    Array.from(document.querySelectorAll('p, h1, h2, h3, h4, h5, h6'))
        .filter(el => isVisible(el) && !isInNav(el) && el.textContent.trim().length > 50)
        .forEach(el => { if (!originalTexts.has(el)) { originalTexts.set(el, el.innerHTML); } });
  \<close>
\<close>

definition storeOne_cjs :: "browser \<Rightarrow> element list \<Rightarrow> (nat \<times> markup) list \<Rightarrow> nat \<Rightarrow> (nat \<times> markup) list" where
  "storeOne_cjs ua doc m h = (if \<not> has h m then AList.update h (innerHTML ua (doc ! h)) m else m)"

definition storeOriginalTexts_cjs :: "browser \<Rightarrow> session_cjs \<Rightarrow> session_cjs" where
  "storeOriginalTexts_cjs ua st =
     (let doc = document_cjs st;
          els = filter (\<lambda>h. isVisible_cjs (doc ! h) \<and> \<not> isInNav_cjs (doc ! h)
                              \<and> 50 < length (trim (textContent (doc ! h))))
                  (textElements doc)
      in st\<lparr>originalTexts_cjs := foldl (storeOne_cjs ua doc) (originalTexts_cjs st) els\<rparr>)"

text \<open>
  \<^verbatim>\<open>
    originalTexts.forEach((originalHTML, element) => {
        if (document.body.contains(element)) { element.innerHTML = originalHTML; }
    });
    originalTexts.clear();
    isRewritten = false;
    chrome.runtime.sendMessage({ action: 'progressUpdate', progress: 0 });
  \<close>
\<close>

definition restoreOne_cjs :: "browser \<Rightarrow> element list \<Rightarrow> nat \<times> markup \<Rightarrow> element list" where
  "restoreOne_cjs ua doc entry =
     (let element = fst entry; originalHTML = snd entry
      in if inBody (doc ! element) then doc[element := setInnerHTML ua (doc ! element) originalHTML]
         else doc)"

definition resetPageContent_cjs :: "browser \<Rightarrow> session_cjs \<Rightarrow> session_cjs" where
  "resetPageContent_cjs ua st =
     st\<lparr>document_cjs := foldl (restoreOne_cjs ua) (document_cjs st) (originalTexts_cjs st),
        originalTexts_cjs := [],
        isRewritten_cjs := False,
        sent_cjs := sent_cjs st @ [ProgressUpdate 0]\<rparr>"

section \<open>Patching an element in \<^verbatim>\<open>content.js\<close>\<close>

text \<open>
  \<^verbatim>\<open>
    const linksToPreserve = Array.from(element.querySelectorAll('a'));
    element.innerHTML = '';
    const trimmedNewText = newText.trim();
    if (linksToPreserve.length > 0) {
        element.appendChild(document.createTextNode(trimmedNewText));
        linksToPreserve.forEach(link => {
            element.appendChild(document.createTextNode(' '));
            element.appendChild(link);
        });
    } else {
        element.textContent = trimmedNewText;
    }
  \<close>
  This variant appends the anchors themselves, not clones, and \<^verbatim>\<open>appendChild\<close> takes a node
  out of the place where it is before it appends it. Which node is which now matters, so
  every element node carries an identity.
\<close>

datatype lnode = LText string | LElem nat string "(string \<times> string) list" "lnode list"

fun ident :: "lnode \<Rightarrow> nat option" where
  "ident (LText s) = None"
| "ident (LElem i t as cs) = Some i"

text \<open>The identity, tag and attributes of an element node.\<close>

fun info1 :: "lnode \<Rightarrow> nat \<times> string \<times> (string \<times> string) list" where
  "info1 (LElem i t as cs) = (i, t, as)"
| "info1 (LText s) = (0, [], [])"

definition labelOf :: "lnode \<Rightarrow> nat" where
  "labelOf a = fst (info1 a)"

text \<open>
  \<open>detachF l ns\<close> removes the node of identity \<open>l\<close> from the forest \<open>ns\<close>, at any depth,
  and returns it with what is left of the forest.
\<close>

fun detachN :: "nat \<Rightarrow> lnode \<Rightarrow> lnode option \<times> lnode"
  and detachF :: "nat \<Rightarrow> lnode list \<Rightarrow> lnode option \<times> lnode list" where
  "detachN l (LText s) = (None, LText s)"
| "detachN l (LElem i t as cs) = (case detachF l cs of (r, cs') \<Rightarrow> (r, LElem i t as cs'))"
| "detachF l [] = (None, [])"
| "detachF l (n # ns) =
     (if ident n = Some l then (Some n, ns)
      else (case detachN l n of
              (Some x, n') \<Rightarrow> (Some x, n' # ns)
            | (None, n') \<Rightarrow> (case detachF l ns of (r, ns') \<Rightarrow> (r, n # ns'))))"

text \<open>\<^verbatim>\<open>querySelectorAll('a')\<close> on a forest of such nodes.\<close>

fun lanchorsN :: "lnode \<Rightarrow> lnode list" and lanchorsF :: "lnode list \<Rightarrow> lnode list" where
  "lanchorsN (LText s) = []"
| "lanchorsN (LElem i t as cs) = (if t = ''a'' then [LElem i t as cs] else []) @ lanchorsF cs"
| "lanchorsF [] = []"
| "lanchorsF (n # ns) = lanchorsN n @ lanchorsF ns"

text \<open>
  The state of the loop: the children of the element, and the former children, which
  \<^verbatim>\<open>innerHTML = ''\<close> has detached. \<open>moveTo\<close> is \<^verbatim>\<open>element.appendChild(link)\<close> for the node of
  identity \<open>l\<close>, taken from wherever it is; \<open>appendLink\<close> is one round of the \<^verbatim>\<open>forEach\<close>.
\<close>

definition moveTo :: "nat \<Rightarrow> lnode list \<times> lnode list \<Rightarrow> lnode list \<times> lnode list" where
  "moveTo l CD =
     (case detachF l (fst CD) of
        (Some n, C') \<Rightarrow> (C' @ [n], snd CD)
      | (None, C') \<Rightarrow>
          (case detachF l (snd CD) of
             (Some n, D') \<Rightarrow> (fst CD @ [n], D')
           | (None, D') \<Rightarrow> CD))"

definition appendLink :: "lnode list \<times> lnode list \<Rightarrow> nat \<Rightarrow> lnode list \<times> lnode list" where
  "appendLink CD l = moveTo l (fst CD @ [LText '' ''], snd CD)"

text \<open>
  Assigning the empty string to \<^verbatim>\<open>textContent\<close> leaves the element without children.
\<close>

definition replaceChildren_cjs :: "lnode list \<Rightarrow> string \<Rightarrow> lnode list" where
  "replaceChildren_cjs children newText =
     (let linksToPreserve = lanchorsF children;
          trimmedNewText = trim newText
      in if linksToPreserve \<noteq> []
         then fst (foldl appendLink ([LText trimmedNewText], children) (map labelOf linksToPreserve))
         else (if trimmedNewText = [] then [] else [LText trimmedNewText]))"

text \<open>
  On the page, the identity of a node is its position in document order when the patch
  begins; the result is read back without the identities.
\<close>

fun eraseN :: "lnode \<Rightarrow> node" where
  "eraseN (LText s) = Text s"
| "eraseN (LElem i t as cs) = Elem t as (map eraseN cs)"

fun labelN :: "nat \<Rightarrow> node \<Rightarrow> lnode \<times> nat"
  and labelF :: "nat \<Rightarrow> node list \<Rightarrow> lnode list \<times> nat" where
  "labelN k (Text s) = (LText s, k)"
| "labelN k (Elem t as cs) = (case labelF (k + 1) cs of (cs', k') \<Rightarrow> (LElem k t as cs', k'))"
| "labelF k [] = ([], k)"
| "labelF k (n # ns) =
     (case labelN k n of (n', k1) \<Rightarrow> (case labelF k1 ns of (ns', k2) \<Rightarrow> (n' # ns', k2)))"

definition replaceElementTextSimple_cjs :: "element \<Rightarrow> string \<Rightarrow> element" where
  "replaceElementTextSimple_cjs e newText =
     e\<lparr>childNodes := map eraseN (replaceChildren_cjs (fst (labelF 0 (childNodes e))) newText)\<rparr>"

section \<open>The rewrite pipeline of \<^verbatim>\<open>content.js\<close>\<close>

text \<open>The decimal digits of a number, as a template literal writes them.\<close>

function decimal :: "nat \<Rightarrow> string" where
  "decimal n = (if n < 10 then [''0123456789'' ! n] else decimal (n div 10) @ [''0123456789'' ! (n mod 10)])"
  by pat_completeness auto
termination
  by (relation "measure id") auto

declare decimal.simps [simp del]

text \<open>
  \<^verbatim>\<open>
    Array.from(tempElement.childNodes).forEach((node, index) => {
        if (node.nodeType === Node.TEXT_NODE) { originalText += node.textContent; }
        else if (node.nodeType === Node.ELEMENT_NODE && node.tagName === 'A') {
            originalText += ` [[LINK${index}:${node.textContent}]] `;
        } else if (node.nodeType === Node.ELEMENT_NODE) { originalText += node.textContent; }
    });
  \<close>
\<close>

definition extractTextWithLinks :: "element \<Rightarrow> string" where
  "extractTextWithLinks e =
     concat (map (\<lambda>(index, node).
                    case node of
                      Text s \<Rightarrow> s
                    | Elem t as cs \<Rightarrow>
                        if t = ''a'' then '' [[LINK'' @ decimal index @ '':'' @ textOf node @ '']] ''
                        else textOf node)
               (zip [0..<length (childNodes e)] (childNodes e)))"

text \<open>
  The callback of one element. \<^verbatim>\<open>return\<close> inside the \<^verbatim>\<open>try\<close> still runs the \<^verbatim>\<open>finally\<close> block;
  \<^verbatim>\<open>if (newText)\<close> passes for a string that is not empty. The wait of 500 ms on a full
  \<^verbatim>\<open>activeRequests\<close> counter changes the timing only.
  \<^verbatim>\<open>
    try {
        const originalText = extractTextWithLinks(el);
        if (originalText.trim().length < 50) { return; }
        const newText = await fetchRewrittenText(apiKey, originalText, targetLevel);
        if (newText) { replaceElementTextSimple(el, newText); }
    } catch (error) { console.error('Error rewriting element:', error); }
    finally {
        activeRequests--;
        completedCount++;
        const progress = 10 + Math.floor((completedCount / totalCount) * 80);
        chrome.runtime.sendMessage({ action: 'progressUpdate', progress });
    }
  \<close>
\<close>

definition rewriteOne_cjs ::
  "(nat \<Rightarrow> backend) \<Rightarrow> nat \<Rightarrow> session_cjs \<times> nat \<Rightarrow> nat \<Rightarrow> session_cjs \<times> nat" where
  "rewriteOne_cjs be totalCount acc el =
     (let st = fst acc; completedCount = snd acc;
          originalText = extractTextWithLinks (document_cjs st ! el);
          st1 =
            (if length (trim originalText) < 50 then st
             else (case fst (fetchRewrittenText_cjs (be el)) of
                     Inr newText \<Rightarrow>
                       (case newText of
                          Some t \<Rightarrow>
                            if t \<noteq> []
                            then st\<lparr>document_cjs :=
                                   (document_cjs st)[el := replaceElementTextSimple_cjs (document_cjs st ! el) t]\<rparr>
                            else st
                        | None \<Rightarrow> st)
                   | Inl e \<Rightarrow> st\<lparr>console_cjs := console_cjs st @ [(el, e)]\<rparr>))
      in (st1\<lparr>sent_cjs := sent_cjs st1 @ [ProgressUpdate (progressAfter (completedCount + 1) totalCount)]\<rparr>,
          completedCount + 1))"

text \<open>
  \<^verbatim>\<open>
    if (!isRewritten) { storeOriginalTexts(); }
    chrome.runtime.sendMessage({ action: 'progressUpdate', progress: 10 });
    const elementsToRewrite = Array.from(document.querySelectorAll('p, h1, h2, h3, h4, h5, h6'))
        .filter(el => isVisible(el) && !isInNav(el) && el.textContent.trim().length > 100 &&
            !originalTexts.has(el));
    ...
    await Promise.all(rewritePromises.map(fn => fn()));
    isRewritten = true;
    chrome.runtime.sendMessage({ action: 'progressUpdate', progress: 100 });
    return { success: true };
  \<close>
  The failure of one element is caught in its callback, and the command answers
  \<^verbatim>\<open>{ success: true }\<close>; the result here is the session.
\<close>

definition elementsToRewrite_cjs :: "session_cjs \<Rightarrow> nat list" where
  "elementsToRewrite_cjs st =
     (let doc = document_cjs st
      in filter (\<lambda>el. isVisible_cjs (doc ! el) \<and> \<not> isInNav_cjs (doc ! el)
                       \<and> 100 < length (trim (textContent (doc ! el)))
                       \<and> \<not> has el (originalTexts_cjs st))
           (textElements doc))"

definition rewritePageContent_cjs :: "browser \<Rightarrow> (nat \<Rightarrow> backend) \<Rightarrow> session_cjs \<Rightarrow> session_cjs" where
  "rewritePageContent_cjs ua be st =
     (let st1 = (if \<not> isRewritten_cjs st then storeOriginalTexts_cjs ua st else st);
          st2 = st1\<lparr>sent_cjs := sent_cjs st1 @ [ProgressUpdate 10]\<rparr>;
          elementsToRewrite = elementsToRewrite_cjs st2;
          totalCount = length elementsToRewrite;
          st3 = fst (foldl (rewriteOne_cjs be totalCount) (st2, 0) elementsToRewrite);
          st4 = st3\<lparr>isRewritten_cjs := True\<rparr>
      in st4\<lparr>sent_cjs := sent_cjs st4 @ [ProgressUpdate 100]\<rparr>)"

section \<open>Notions used in the statements\<close>

text \<open>
  The three length checks of the selection, put together: \<open>lengthFloor\<close> is what they
  demand of the trimmed text, \<open>otherRules\<close> is every other condition of \<^const>\<open>captures\<close>.
\<close>

definition lengthFloor :: "element \<Rightarrow> bool" where
  "lengthFloor e =
     (if isHeadingTagCI (tagName e) then 25 < length (trim (textContent e))
      else 40 \<le> length (trim (textContent e)))"

definition otherRules :: "element \<Rightarrow> bool" where
  "otherRules e =
     (\<not> list_ex (includesStr (toLowerCase (className e))) excludeClasses
      \<and> (if isHeadingTagCI (tagName e) \<or> toLowerCase (tagName e) = ''p''
         then isInMainContent e else True)
      \<and> isVisible e \<and> \<not> isInNav e \<and> \<not> isInteractive e
      \<and> \<not> list_ex (\<lambda>pattern. pattern (trim (textContent e))) metaPatterns)"

text \<open>Anchors, the anchors inside a node, and the \<^verbatim>\<open>href\<close> attribute.\<close>

definition isAnchor :: "node \<Rightarrow> bool" where
  "isAnchor n = (case n of Elem t as cs \<Rightarrow> t = ''a'' | Text s \<Rightarrow> False)"

definition innerAnchors :: "node \<Rightarrow> node list" where
  "innerAnchors n = (case n of Elem t as cs \<Rightarrow> concat (map anchorsOf cs) | Text s \<Rightarrow> [])"

definition noNestedAnchors :: "element \<Rightarrow> bool" where
  "noNestedAnchors e = list_all (\<lambda>l. innerAnchors l = []) (querySelectorAll_a e)"

definition href :: "node \<Rightarrow> string option" where
  "href n = (case n of Elem t as cs \<Rightarrow> map_of as ''href'' | Text s \<Rightarrow> None)"

text \<open>
  The elements a capture records, in document order, and the store it builds from them.
\<close>

definition captured :: "element list \<Rightarrow> nat list" where
  "captured doc = filter (\<lambda>h. captures (doc ! h)) (textElements doc)"

definition storeOf :: "browser \<Rightarrow> element list \<Rightarrow> (nat \<times> item) list" where
  "storeOf ua doc = zip [0..<length (captured doc)] (map (snapshot ua doc) (captured doc))"

text \<open>
  What the callback of one entry does to its element and to the console, and whether it
  applied a patch; the page after all callbacks, and after the loop of a reset.
\<close>

definition patchOf :: "browser \<Rightarrow> (nat \<Rightarrow> backend) \<Rightarrow> nat \<times> item \<Rightarrow> element \<Rightarrow> element" where
  "patchOf ua be entry el =
     (if 10 < length (trim (originalText (snd entry))) then
        (case fst (fetchRewrittenText (originalText (snd entry)) (be (fst entry))) of
           Inr rewrittenText \<Rightarrow> replaceElementTextSimple ua el rewrittenText
         | Inl e \<Rightarrow> el)
      else el)"

definition logOf :: "(nat \<Rightarrow> backend) \<Rightarrow> nat \<times> item \<Rightarrow> (nat \<times> error) list" where
  "logOf be entry =
     (if 10 < length (trim (originalText (snd entry))) then
        (case fst (fetchRewrittenText (originalText (snd entry)) (be (fst entry))) of
           Inr rewrittenText \<Rightarrow> []
         | Inl e \<Rightarrow> [(fst entry, e)])
      else [])"

definition patchApplied :: "(nat \<Rightarrow> backend) \<Rightarrow> nat \<times> item \<Rightarrow> bool" where
  "patchApplied be entry =
     (10 < length (trim (originalText (snd entry)))
      \<and> (case fst (fetchRewrittenText (originalText (snd entry)) (be (fst entry))) of
            Inr t \<Rightarrow> True | Inl e \<Rightarrow> False))"

definition patchAll :: "browser \<Rightarrow> (nat \<Rightarrow> backend) \<Rightarrow> element list \<Rightarrow> (nat \<times> item) list \<Rightarrow> element list" where
  "patchAll ua be doc es =
     foldl (\<lambda>d e. d[itemElement (snd e) := patchOf ua be e (d ! itemElement (snd e))]) doc es"

definition restoreAll :: "browser \<Rightarrow> element list \<Rightarrow> (nat \<times> item) list \<Rightarrow> element list" where
  "restoreAll ua doc es =
     foldl (\<lambda>d e. d[itemElement (snd e) := setInnerHTML ua (d ! itemElement (snd e)) (originalHTML (snd e))])
       doc es"

definition restoreAll_cjs :: "browser \<Rightarrow> element list \<Rightarrow> (nat \<times> markup) list \<Rightarrow> element list" where
  "restoreAll_cjs ua doc es =
     foldl (\<lambda>d e. d[fst e := (if inBody (d ! fst e) then setInnerHTML ua (d ! fst e) (snd e) else d ! fst e)])
       doc es"

text \<open>The progress values of a rewrite over \<open>n\<close> entries, and those found in a list of messages.\<close>

definition progressValues :: "nat \<Rightarrow> nat list" where
  "progressValues n = 10 # map (\<lambda>k. progressAfter k n) [1..<n + 1] @ [100]"

definition percents :: "message list \<Rightarrow> nat list" where
  "percents msgs = concat (map (\<lambda>m. case m of ProgressUpdate n \<Rightarrow> [n] | Download s \<Rightarrow> []) msgs)"

text \<open>
  A session that was clean on the page \<open>doc0\<close> and has been rewritten since; and a sequence of
  rewrite commands, each with the answers the backend gives during it.
\<close>

definition rewrittenFrom :: "browser \<Rightarrow> element list \<Rightarrow> session \<Rightarrow> bool" where
  "rewrittenFrom ua doc0 st =
     (isRewritten st \<and> originalTexts st = storeOf ua doc0 \<and> length (document st) = length doc0
      \<and> (\<forall>h < length doc0. tagName (document st ! h) = tagName (doc0 ! h))
      \<and> (\<forall>h < length doc0. h \<notin> set (captured doc0) \<longrightarrow> document st ! h = doc0 ! h))"

definition rewriteRuns :: "browser \<Rightarrow> (nat \<Rightarrow> backend) list \<Rightarrow> session \<Rightarrow> session" where
  "rewriteRuns ua bes st = foldl (\<lambda>s be. snd (rewritePageContent ua be s)) st bes"

text \<open>
  An element after its own markup has been assigned to it, and whether its markup then reads
  as before: whether the browser serialises, parses and serialises it to the same string.
\<close>

definition reparsed :: "browser \<Rightarrow> element \<Rightarrow> element" where
  "reparsed ua e = setInnerHTML ua e (innerHTML ua e)"

definition readsBack :: "browser \<Rightarrow> element \<Rightarrow> bool" where
  "readsBack ua e = (innerHTML ua (reparsed ua e) = innerHTML ua e)"

text \<open>
  The elements a capture of \<^verbatim>\<open>content.js\<close> records on an empty store, the store it builds,
  and a sequence of its rewrite commands.
\<close>

definition captured_cjs :: "element list \<Rightarrow> nat list" where
  "captured_cjs doc =
     filter (\<lambda>h. isVisible_cjs (doc ! h) \<and> \<not> isInNav_cjs (doc ! h)
                  \<and> 50 < length (trim (textContent (doc ! h))))
       (textElements doc)"

definition storeOf_cjs :: "browser \<Rightarrow> element list \<Rightarrow> (nat \<times> markup) list" where
  "storeOf_cjs ua doc = map (\<lambda>h. (h, innerHTML ua (doc ! h))) (captured_cjs doc)"

definition rewriteRuns_cjs :: "browser \<Rightarrow> (nat \<Rightarrow> backend) list \<Rightarrow> session_cjs \<Rightarrow> session_cjs" where
  "rewriteRuns_cjs ua bes st = foldl (\<lambda>s be. rewritePageContent_cjs ua be s) st bes"

text \<open>
  Every element node of a tree or forest, in document order; a node without its children;
  the element nodes at the top of a forest; and the trailing part of a patched element.
\<close>

fun infoN :: "lnode \<Rightarrow> (nat \<times> string \<times> (string \<times> string) list) list"
  and infoF :: "lnode list \<Rightarrow> (nat \<times> string \<times> (string \<times> string) list) list" where
  "infoN (LText s) = []"
| "infoN (LElem i t as cs) = (i, t, as) # infoF cs"
| "infoF [] = []"
| "infoF (n # ns) = infoN n @ infoF ns"

fun root :: "lnode \<Rightarrow> lnode" where
  "root (LText s) = LText s"
| "root (LElem i t as cs) = LElem i t as []"

fun rootOf :: "node \<Rightarrow> node" where
  "rootOf (Text s) = Text s"
| "rootOf (Elem t as cs) = Elem t as []"

fun topInfo :: "lnode list \<Rightarrow> (nat \<times> string \<times> (string \<times> string) list) list" where
  "topInfo [] = []"
| "topInfo (LText s # ns) = topInfo ns"
| "topInfo (LElem i t as cs # ns) = (i, t, as) # topInfo ns"

definition spaced :: "lnode list \<Rightarrow> lnode list" where
  "spaced as = concat (map (\<lambda>a. [LText '' '', root a]) as)"

section \<open>A sample browser\<close>

text \<open>
  One browser to run the samples in: a serialiser and a fragment parser for the part of HTML
  that the sample pages use, which is text, the character references of the serialiser, and
  elements with attributes. The serialiser follows the HTML fragment serialisation algorithm
  for text and element nodes.
\<close>

definition voidTags :: "string list" where
  "voidTags = [''area'', ''base'', ''basefont'', ''bgsound'', ''br'', ''col'', ''embed'', ''frame'',
               ''hr'', ''img'', ''input'', ''keygen'', ''link'', ''meta'', ''param'', ''source'',
               ''track'', ''wbr'']"

definition rawTextTags :: "string list" where
  "rawTextTags = [''style'', ''script'', ''xmp'', ''iframe'', ''noembed'', ''noframes'',
                  ''plaintext'', ''noscript'']"

definition escapeText :: "string \<Rightarrow> string" where
  "escapeText s =
     concat (map (\<lambda>c. if c = CHR ''&'' then ''&amp;'' else if c = CHR 0xA0 then ''&nbsp;''
                        else if c = CHR ''<'' then ''&lt;'' else if c = CHR ''>'' then ''&gt;''
                        else [c]) s)"

definition escapeValue :: "string \<Rightarrow> string" where
  "escapeValue s =
     concat (map (\<lambda>c. if c = CHR ''&'' then ''&amp;'' else if c = CHR 0xA0 then ''&nbsp;''
                        else if c = CHR 0x22 then ''&quot;'' else [c]) s)"

fun serializeNode :: "bool \<Rightarrow> node \<Rightarrow> string" where
  "serializeNode raw (Text s) = (if raw then s else escapeText s)"
| "serializeNode raw (Elem t as cs) =
     ''<'' @ t @ concat (map (\<lambda>a. '' '' @ fst a @ ''='' @ [CHR 0x22] @ escapeValue (snd a) @ [CHR 0x22]) as)
       @ ''>''
       @ (if t \<in> set voidTags then []
          else concat (map (serializeNode (t \<in> set rawTextTags)) cs) @ ''</'' @ t @ ''>'')"

definition serializeChildren :: "string \<Rightarrow> node list \<Rightarrow> string" where
  "serializeChildren tag cs = concat (map (serializeNode (toLowerCase tag \<in> set rawTextTags)) cs)"

text \<open>
  The tokenizer, one character at a time. Its states are those of the HTML tokenizer that
  tags with attributes go through; comments, \<^verbatim>\<open>DOCTYPE\<close> and \<^verbatim>\<open>CDATA\<close> are left out, and character
  references are resolved afterwards, in the text nodes and attribute values of the tree.
\<close>

datatype token = Character char | StartTag string "(string \<times> string) list" | EndTag string

datatype lexer =
    Data
  | TagOpen
  | EndTagOpen
  | TagName bool string
  | BeforeAttributeName bool string "(string \<times> string) list"
  | AttributeName bool string "(string \<times> string) list" string
  | AfterAttributeName bool string "(string \<times> string) list" string
  | BeforeAttributeValue bool string "(string \<times> string) list" string
  | AttributeValue bool string "(string \<times> string) list" string "char option" string
  | AfterAttributeValue bool string "(string \<times> string) list"

definition emitTag :: "bool \<Rightarrow> string \<Rightarrow> (string \<times> string) list \<Rightarrow> token" where
  "emitTag isEnd name attrs = (if isEnd then EndTag name else StartTag name attrs)"

definition addAttribute :: "(string \<times> string) list \<Rightarrow> string \<Rightarrow> string \<Rightarrow> (string \<times> string) list" where
  "addAttribute attrs name v = (if name \<in> set (map fst attrs) then attrs else attrs @ [(name, v)])"

fun lexStep :: "lexer \<Rightarrow> char \<Rightarrow> lexer \<times> token list" where
  "lexStep Data c = (if c = CHR ''<'' then (TagOpen, []) else (Data, [Character c]))"
| "lexStep TagOpen c =
     (if isLetter c then (TagName False [foldChar c], [])
      else if c = CHR ''/'' then (EndTagOpen, [])
      else if c = CHR ''<'' then (TagOpen, [Character CHR ''<''])
      else (Data, [Character CHR ''<'', Character c]))"
| "lexStep EndTagOpen c =
     (if isLetter c then (TagName True [foldChar c], []) else (Data, []))"
| "lexStep (TagName e n) c =
     (if isHtmlSpace c \<or> c = CHR ''/'' then (BeforeAttributeName e n [], [])
      else if c = CHR ''>'' then (Data, [emitTag e n []])
      else (TagName e (n @ [foldChar c]), []))"
| "lexStep (BeforeAttributeName e n as) c =
     (if isHtmlSpace c \<or> c = CHR ''/'' then (BeforeAttributeName e n as, [])
      else if c = CHR ''>'' then (Data, [emitTag e n as])
      else (AttributeName e n as [foldChar c], []))"
| "lexStep (AttributeName e n as a) c =
     (if isHtmlSpace c then (AfterAttributeName e n as a, [])
      else if c = CHR ''/'' then (BeforeAttributeName e n (addAttribute as a []), [])
      else if c = CHR ''='' then (BeforeAttributeValue e n as a, [])
      else if c = CHR ''>'' then (Data, [emitTag e n (addAttribute as a [])])
      else (AttributeName e n as (a @ [foldChar c]), []))"
| "lexStep (AfterAttributeName e n as a) c =
     (if isHtmlSpace c then (AfterAttributeName e n as a, [])
      else if c = CHR ''/'' then (BeforeAttributeName e n (addAttribute as a []), [])
      else if c = CHR ''='' then (BeforeAttributeValue e n as a, [])
      else if c = CHR ''>'' then (Data, [emitTag e n (addAttribute as a [])])
      else (AttributeName e n (addAttribute as a []) [foldChar c], []))"
| "lexStep (BeforeAttributeValue e n as a) c =
     (if isHtmlSpace c then (BeforeAttributeValue e n as a, [])
      else if c = CHR 0x22 \<or> c = CHR 0x27 then (AttributeValue e n as a (Some c) [], [])
      else if c = CHR ''>'' then (Data, [emitTag e n (addAttribute as a [])])
      else (AttributeValue e n as a None [c], []))"
| "lexStep (AttributeValue e n as a q v) c =
     (case q of
        Some quote \<Rightarrow>
          if c = quote then (AfterAttributeValue e n (addAttribute as a v), [])
          else (AttributeValue e n as a q (v @ [c]), [])
      | None \<Rightarrow>
          if isHtmlSpace c then (BeforeAttributeName e n (addAttribute as a v), [])
          else if c = CHR ''>'' then (Data, [emitTag e n (addAttribute as a v)])
          else (AttributeValue e n as a q (v @ [c]), []))"
| "lexStep (AfterAttributeValue e n as) c =
     (if isHtmlSpace c \<or> c = CHR ''/'' then (BeforeAttributeName e n as, [])
      else if c = CHR ''>'' then (Data, [emitTag e n as])
      else (AttributeName e n as [foldChar c], []))"

definition tokenize :: "string \<Rightarrow> token list" where
  "tokenize s = snd (foldl (\<lambda>acc c. case lexStep (fst acc) c of (l, ts) \<Rightarrow> (l, snd acc @ ts)) (Data, []) s)"

definition references :: "(string \<times> char) list" where
  "references = [(''amp;'', CHR ''&''), (''lt;'', CHR ''<''), (''gt;'', CHR ''>''),
                 (''quot;'', CHR 0x22), (''nbsp;'', CHR 0xA0)]"

fun decode :: "nat \<Rightarrow> string \<Rightarrow> string" where
  "decode k [] = []"
| "decode k (c # cs) =
     (if 0 < k then decode (k - 1) cs
      else if c = CHR ''&'' then
        (case find (\<lambda>r. startsWith cs (fst r)) references of
           Some r \<Rightarrow> snd r # decode (length (fst r)) cs
         | None \<Rightarrow> c # decode 0 cs)
      else c # decode 0 cs)"

fun decodeNode :: "node \<Rightarrow> node" where
  "decodeNode (Text s) = Text (decode 0 s)"
| "decodeNode (Elem t as cs) = Elem t (map (\<lambda>a. (fst a, decode 0 (snd a))) as) (map decodeNode cs)"

text \<open>
  The tree builder, with the stack of open elements; the bottom of the stack holds the nodes
  of the fragment. A start tag \<^verbatim>\<open>a\<close> while an anchor is open, with no \<^verbatim>\<open>object\<close> or table cell in
  between, closes that anchor first, and what was open inside it; an end tag closes the
  nearest open element of its name, and is ignored when there is none.
\<close>

definition scopeTags :: "string list" where
  "scopeTags = [''applet'', ''caption'', ''html'', ''table'', ''td'', ''th'', ''marquee'', ''object'',
                ''template'']"

type_synonym frame = "string \<times> (string \<times> string) list \<times> node list"

definition appendNode :: "node \<Rightarrow> frame list \<Rightarrow> frame list" where
  "appendNode n fs = (case fs of [] \<Rightarrow> [] | (t, as, cs) # rest \<Rightarrow> (t, as, cs @ [n]) # rest)"

definition appendCharacter :: "char \<Rightarrow> frame list \<Rightarrow> frame list" where
  "appendCharacter c fs =
     (case fs of
        [] \<Rightarrow> []
      | (t, as, cs) # rest \<Rightarrow>
          (case rev cs of
             Text s # earlier \<Rightarrow> (t, as, rev earlier @ [Text (s @ [c])]) # rest
           | _ \<Rightarrow> (t, as, cs @ [Text [c]]) # rest))"

definition popElement :: "frame list \<Rightarrow> frame list" where
  "popElement fs =
     (case fs of
        (t, as, cs) # parent # rest \<Rightarrow> appendNode (Elem t as cs) (parent # rest)
      | _ \<Rightarrow> fs)"

definition inScope :: "string \<Rightarrow> frame list \<Rightarrow> bool" where
  "inScope t fs =
     (case dropWhile (\<lambda>f. fst f \<noteq> t \<and> fst f \<notin> set scopeTags) (butlast fs) of
        [] \<Rightarrow> False
      | f # below \<Rightarrow> fst f = t)"

definition closeThrough :: "string \<Rightarrow> frame list \<Rightarrow> frame list" where
  "closeThrough t fs = (popElement ^^ (length (takeWhile (\<lambda>f. fst f \<noteq> t) fs) + 1)) fs"

definition treeStep :: "frame list \<Rightarrow> token \<Rightarrow> frame list" where
  "treeStep fs tok =
     (case tok of
        Character c \<Rightarrow> appendCharacter c fs
      | StartTag t as \<Rightarrow>
          (let fs1 = (if t = ''a'' \<and> inScope ''a'' fs then closeThrough ''a'' fs else fs)
           in if t \<in> set voidTags then appendNode (Elem t as []) fs1 else (t, as, []) # fs1)
      | EndTag t \<Rightarrow> (if inScope t fs then closeThrough t fs else fs))"

definition parseChildren :: "string \<Rightarrow> string \<Rightarrow> node list" where
  "parseChildren tag html =
     (let fs = foldl treeStep [(''html'', [], [])] (tokenize html)
      in case (popElement ^^ length fs) fs of
           (t, as, cs) # rest \<Rightarrow> map decodeNode cs
         | [] \<Rightarrow> [])"

definition simpleBrowser :: browser where
  "simpleBrowser = \<lparr>serialize = serializeChildren, parseFragment = parseChildren\<rparr>"

section \<open>Sample pages and backends\<close>

definition serverErrorThenOk :: backend where
  "serverErrorThenOk i =
     (if i = 0 then Answered \<lparr>status = 500, statusText = ''Internal Server Error'',
                               payload = Content None\<rparr>
      else Answered \<lparr>status = 200, statusText = ''OK'', payload = Content (Some ''Hi'')\<rparr>)"

definition alwaysRateLimited :: backend where
  "alwaysRateLimited i =
     Answered \<lparr>status = 429, statusText = ''Too Many Requests'', payload = Content None\<rparr>"

definition emptyAnswer :: backend where
  "emptyAnswer i = Answered \<lparr>status = 200, statusText = ''OK'', payload = Content None\<rparr>"

definition offline :: "nat \<Rightarrow> backend" where
  "offline index i = Rejected ''Failed to fetch''"

definition online :: "nat \<Rightarrow> backend" where
  "online index i =
     Answered \<lparr>status = 200, statusText = ''OK'',
               payload = Content (Some ''A short text that is simple and easy to read.'')\<rparr>"

text \<open>A visible element inside an \<^verbatim>\<open>article\<close>.\<close>

definition plain :: "string \<Rightarrow> node list \<Rightarrow> element" where
  "plain tag content =
     \<lparr>tagName = tag, className = [], childNodes = content, role = None, onclick = False,
      ancestors = [\<lparr>localName = ''article'', classList = [], roleOf = None\<rparr>,
                   \<lparr>localName = ''body'', classList = [], roleOf = None\<rparr>],
      display = ''block'', visibility = ''visible'', opacity = ''1'',
      offsetWidth = 600, offsetHeight = 20,
      styleTransition = [], styleOpacity = [], opacityTimers = 0, inBody = True\<rparr>"

definition shortHeading :: element where
  "shortHeading = plain ''H1'' [Text ''Short title'']"

definition paragraph35 :: element where
  "paragraph35 = plain ''P'' [Text ''A paragraph of thirty-five letters.'']"

definition longParagraph :: element where
  "longParagraph = plain ''P'' [Text ''A paragraph that has forty letters in it'']"

definition rewrittenParagraph :: element where
  "rewrittenParagraph =
     replaceElementTextSimple simpleBrowser longParagraph ''A short text that is simple and easy to read.''"

definition twoLinks :: element where
  "twoLinks = plain ''P''
     [Text ''See '', Elem ''a'' [(''href'', ''/one'')] [Text ''one''], Text '' and '',
      Elem ''b'' [] [Elem ''a'' [(''href'', ''/two'')] [Text ''two'']], Text '' for more.'']"

definition nestedLinks :: element where
  "nestedLinks = plain ''P''
     [Elem ''a'' [(''href'', ''/outer'')]
        [Text ''outer '',
         Elem ''object'' [] [Elem ''a'' [(''href'', ''/inner'')] [Text ''inner'']]]]"

definition cleanPage :: session where
  "cleanPage = \<lparr>originalTexts = [], isRewritten = False, document = [longParagraph],
                sent = [], console = []\<rparr>"

text \<open>
  A paragraph in which a script has put one anchor inside another, and a paragraph long enough
  for \<^verbatim>\<open>content.js\<close>.
\<close>

definition scriptedLinks :: element where
  "scriptedLinks = plain ''P''
     [Text ''The river runs through the old town and past the mill. '',
      Elem ''a'' [(''href'', ''/outer'')]
        [Text ''Read '', Elem ''a'' [(''href'', ''/inner'')] [Text ''more'']]]"

definition scriptedPage :: session where
  "scriptedPage = \<lparr>originalTexts = [], isRewritten = False, document = [scriptedLinks],
                   sent = [], console = []\<rparr>"

definition articleParagraph :: element where
  "articleParagraph = plain ''P''
     [Text ''The river runs through the old town and past the mill, where the road turns north and climbs to the pass.'']"

definition freshPage_cjs :: session_cjs where
  "freshPage_cjs = \<lparr>originalTexts_cjs = [], isRewritten_cjs = False,
                    document_cjs = [articleParagraph, scriptedLinks], sent_cjs = [],
                    console_cjs = []\<rparr>"

section \<open>Backoff on rate limiting\<close>

lemma retryLoop_done:
  "retryLoop be 3 resp tr = (Inr resp, tr)"
  by (simp add: retryLoop.simps [of be 3])

lemma retryLoop_ok:
  "i < 3 \<Longrightarrow> be i = Answered r \<Longrightarrow> ok r \<Longrightarrow>
   retryLoop be i resp tr = (Inr (Some r), tr @ [Fetched i (Answered r)])"
  by (simp add: retryLoop.simps [of be i])

lemma retryLoop_429:
  "i < 3 \<Longrightarrow> be i = Answered r \<Longrightarrow> status r = 429 \<Longrightarrow>
   retryLoop be i resp tr =
     retryLoop be (Suc i) (Some r) (tr @ [Fetched i (Answered r), Waited (backoff i)])"
  by (simp add: retryLoop.simps [of be i] ok_def)

lemma retryLoop_status_retried:
  "i < 2 \<Longrightarrow> be i = Answered r \<Longrightarrow> \<not> ok r \<Longrightarrow>
   retryLoop be i resp tr =
     retryLoop be (Suc i) (Some r) (tr @ [Fetched i (Answered r), Waited (backoff i)])"
  by (simp add: retryLoop.simps [of be i])

lemma retryLoop_status_last:
  "be 2 = Answered r \<Longrightarrow> \<not> ok r \<Longrightarrow> status r \<noteq> 429 \<Longrightarrow>
   retryLoop be 2 resp tr = (Inl (ApiError (statusText r)), tr @ [Fetched 2 (Answered r)])"
  by (simp add: retryLoop.simps [of be 2])

lemma retryLoop_rejected_retried:
  "i < 2 \<Longrightarrow> be i = Rejected e \<Longrightarrow>
   retryLoop be i resp tr =
     retryLoop be (Suc i) resp (tr @ [Fetched i (Rejected e), Waited (backoff i)])"
  by (simp add: retryLoop.simps [of be i])

lemma retryLoop_rejected_last:
  "be 2 = Rejected e \<Longrightarrow>
   retryLoop be 2 resp tr = (Inl (FetchRejected e), tr @ [Fetched 2 (Rejected e)])"
  by (simp add: retryLoop.simps [of be 2])

text \<open>
  C9. When the backend answers 429 on the first two attempts and succeeds on the third, the
  client fetches three times, waits exactly twice, 1000 ms and then 2000 ms
  (\<open>2 ^ i * 1000\<close> for the attempt index \<open>i = 0, 1\<close>), exactly one of the fetches is
  successful, and the client goes on with that successful response: \<^verbatim>\<open>fetchRewrittenText\<close>
  returns what it reads from the body of the third response.
\<close>

theorem backoff_two_waits_then_success:
  assumes "be 0 = Answered r0" "status r0 = 429"
      and "be 1 = Answered r1" "status r1 = 429"
      and "be 2 = Answered r2" "ok r2"
  shows "fetchWithRetry be =
           (Inr r2, [Fetched 0 (Answered r0), Waited 1000,
                     Fetched 1 (Answered r1), Waited 2000,
                     Fetched 2 (Answered r2)])
         \<and> waits (snd (fetchWithRetry be)) = [1000, 2000]
         \<and> length (filter succeeded (fetches (snd (fetchWithRetry be)))) = 1
         \<and> fst (fetchRewrittenText orig be) =
             (case payload r2 of
                Unreadable m \<Rightarrow> Inl (JsonRejected m)
              | Content None \<Rightarrow> Inr orig
              | Content (Some t) \<Rightarrow> if t \<noteq> [] then Inr (stripQuotes (trim t)) else Inr orig)
         \<and> fst (fetchRewrittenText_cjs be) =
             (case payload r2 of Unreadable m \<Rightarrow> Inl (JsonRejected m) | Content c \<Rightarrow> Inr c)"
proof -
  have n0: "\<not> ok r0" and n1: "\<not> ok r1"
    using assms by (simp_all add: ok_def)
  have s0: "retryLoop be 0 None [] =
      retryLoop be (Suc 0) (Some r0) [Fetched 0 (Answered r0), Waited 1000]"
    using retryLoop_429 [of 0 be r0 None "[]"] assms by (simp add: backoff_def)
  have s1: "retryLoop be (Suc 0) (Some r0) [Fetched 0 (Answered r0), Waited 1000] =
      retryLoop be 2 (Some r1)
        [Fetched 0 (Answered r0), Waited 1000, Fetched 1 (Answered r1), Waited 2000]"
    using retryLoop_429 [of 1 be r1 "Some r0" "[Fetched 0 (Answered r0), Waited 1000]"] assms
    by (simp add: backoff_def numeral_2_eq_2)
  have s2: "retryLoop be 2 (Some r1)
        [Fetched 0 (Answered r0), Waited 1000, Fetched 1 (Answered r1), Waited 2000] =
      (Inr (Some r2), [Fetched 0 (Answered r0), Waited 1000,
                     Fetched 1 (Answered r1), Waited 2000,
                     Fetched 2 (Answered r2)])"
    using retryLoop_ok [of 2 be r2] assms by simp
  have run: "retryLoop be 0 None [] =
           (Inr (Some r2), [Fetched 0 (Answered r0), Waited 1000,
                     Fetched 1 (Answered r1), Waited 2000,
                     Fetched 2 (Answered r2)])"
    using s0 s1 s2 by simp
  then have res: "fetchWithRetry be =
           (Inr r2, [Fetched 0 (Answered r0), Waited 1000,
                     Fetched 1 (Answered r1), Waited 2000,
                     Fetched 2 (Answered r2)])"
    using assms by (simp add: fetchWithRetry_def)
  have a: "waits (snd (fetchWithRetry be)) = [1000, 2000]
      \<and> length (filter succeeded (fetches (snd (fetchWithRetry be)))) = 1"
    using n0 n1 assms(6) by (simp add: res waits_def fetches_def succeeded_def)
  have b: "fst (fetchRewrittenText orig be) =
             (case payload r2 of
                Unreadable m \<Rightarrow> Inl (JsonRejected m)
              | Content None \<Rightarrow> Inr orig
              | Content (Some t) \<Rightarrow> if t \<noteq> [] then Inr (stripQuotes (trim t)) else Inr orig)"
    by (simp add: fetchRewrittenText_def res split: body.splits option.splits)
  have c: "fst (fetchRewrittenText_cjs be) =
             (case payload r2 of Unreadable m \<Rightarrow> Inl (JsonRejected m) | Content c \<Rightarrow> Inr c)"
    by (simp add: fetchRewrittenText_cjs_def res split: body.splits)
  show ?thesis
    using res a b c by simp
qed

theorem backoff_two_waits_then_success_witness:
  "fetchWithRetry (\<lambda>i. if i < 2 then Answered \<lparr>status = 429, statusText = ''Too Many Requests'',
                                                payload = Content None\<rparr>
                         else Answered \<lparr>status = 200, statusText = ''OK'',
                                        payload = Content (Some ''Hello'')\<rparr>) =
     (Inr \<lparr>status = 200, statusText = ''OK'', payload = Content (Some ''Hello'')\<rparr>,
      [Fetched 0 (Answered \<lparr>status = 429, statusText = ''Too Many Requests'', payload = Content None\<rparr>),
       Waited 1000,
       Fetched 1 (Answered \<lparr>status = 429, statusText = ''Too Many Requests'', payload = Content None\<rparr>),
       Waited 2000,
       Fetched 2 (Answered \<lparr>status = 200, statusText = ''OK'', payload = Content (Some ''Hello'')\<rparr>)])
   \<and> fst (fetchRewrittenText ''Good morning''
          (\<lambda>i. if i < 2 then Answered \<lparr>status = 429, statusText = ''Too Many Requests'',
                                        payload = Content None\<rparr>
                else Answered \<lparr>status = 200, statusText = ''OK'',
                               payload = Content (Some ''Hello'')\<rparr>)) = Inr ''Hello''"
proof -
  have t: "stripQuotes (trim ''Hello'') = ''Hello''"
    by code_simp
  show ?thesis
    using backoff_two_waits_then_success
      [of "\<lambda>i. if i < 2 then Answered \<lparr>status = 429, statusText = ''Too Many Requests'',
                                         payload = Content None\<rparr>
                 else Answered \<lparr>status = 200, statusText = ''OK'',
                                payload = Content (Some ''Hello'')\<rparr>"
          "\<lparr>status = 429, statusText = ''Too Many Requests'', payload = Content None\<rparr>"
          "\<lparr>status = 429, statusText = ''Too Many Requests'', payload = Content None\<rparr>"
          "\<lparr>status = 200, statusText = ''OK'', payload = Content (Some ''Hello'')\<rparr>"
          "''Good morning''"]
    by (simp add: ok_def t)
qed

section \<open>Error statuses other than 429\<close>

lemma fetchWithRetry_status_then_ok:
  assumes "be 0 = Answered r0" "\<not> ok r0" "be 1 = Answered r1" "ok r1"
  shows "fetchWithRetry be =
           (Inr r1, [Fetched 0 (Answered r0), Waited 1000, Fetched 1 (Answered r1)])"
proof -
  have "retryLoop be 0 None [] =
      retryLoop be (Suc 0) (Some r0) [Fetched 0 (Answered r0), Waited 1000]"
    using retryLoop_status_retried [of 0 be r0 None "[]"] assms by (simp add: backoff_def)
  moreover have "retryLoop be (Suc 0) (Some r0) [Fetched 0 (Answered r0), Waited 1000] =
      (Inr (Some r1), [Fetched 0 (Answered r0), Waited 1000, Fetched 1 (Answered r1)])"
    using retryLoop_ok [of 1 be r1 "Some r0"] assms by simp
  ultimately show ?thesis
    using assms by (simp add: fetchWithRetry_def)
qed

lemma fetchWithRetry_exhausted:
  assumes "\<And>i. i < 3 \<Longrightarrow> be i = Answered (r i) \<and> status (r i) = 429"
  shows "fetchWithRetry be =
           (Inl RetriesFailed,
            [Fetched 0 (Answered (r 0)), Waited 1000, Fetched 1 (Answered (r 1)), Waited 2000,
             Fetched 2 (Answered (r 2)), Waited 4000])"
proof -
  have b: "be 0 = Answered (r 0)" "be 1 = Answered (r 1)" "be 2 = Answered (r 2)"
    and st: "status (r 0) = 429" "status (r 1) = 429" "status (r 2) = 429"
    using assms by simp_all
  have "retryLoop be 0 None [] =
      retryLoop be (Suc 0) (Some (r 0)) [Fetched 0 (Answered (r 0)), Waited 1000]"
    using retryLoop_429 [of 0 be "r 0" None "[]"] b st by (simp add: backoff_def)
  moreover have "retryLoop be (Suc 0) (Some (r 0)) [Fetched 0 (Answered (r 0)), Waited 1000] =
      retryLoop be 2 (Some (r 1))
        [Fetched 0 (Answered (r 0)), Waited 1000, Fetched 1 (Answered (r 1)), Waited 2000]"
    using retryLoop_429 [of 1 be "r 1" "Some (r 0)"] b st
    by (simp add: backoff_def numeral_2_eq_2)
  moreover have "retryLoop be 2 (Some (r 1))
        [Fetched 0 (Answered (r 0)), Waited 1000, Fetched 1 (Answered (r 1)), Waited 2000] =
      retryLoop be 3 (Some (r 2))
        [Fetched 0 (Answered (r 0)), Waited 1000, Fetched 1 (Answered (r 1)), Waited 2000,
         Fetched 2 (Answered (r 2)), Waited 4000]"
    using retryLoop_429 [of 2 be "r 2" "Some (r 1)"] b st
    by (simp add: backoff_def numeral_3_eq_3 numeral_2_eq_2)
  ultimately have "retryLoop be 0 None [] =
      (Inr (Some (r 2)),
        [Fetched 0 (Answered (r 0)), Waited 1000, Fetched 1 (Answered (r 1)), Waited 2000,
         Fetched 2 (Answered (r 2)), Waited 4000])"
    by (simp add: retryLoop_done)
  then show ?thesis
    using st by (simp add: fetchWithRetry_def ok_def)
qed

text \<open>
  C3, the failing input. The backend answers 500 to the first attempt and 200 to the second.
  The claim has the client fail at once, with no further attempt; the loop waits 1000 ms,
  fetches again and returns the second response, and \<^verbatim>\<open>fetchRewrittenText\<close> of either variant
  and \<^verbatim>\<open>createSummary\<close> return its text.
\<close>

theorem status_500_is_retried:
  "fetchWithRetry serverErrorThenOk =
     (Inr \<lparr>status = 200, statusText = ''OK'', payload = Content (Some ''Hi'')\<rparr>,
      [Fetched 0 (Answered \<lparr>status = 500, statusText = ''Internal Server Error'',
                            payload = Content None\<rparr>),
       Waited 1000,
       Fetched 1 (Answered \<lparr>status = 200, statusText = ''OK'', payload = Content (Some ''Hi'')\<rparr>)])
   \<and> fst (fetchRewrittenText ''Good morning'' serverErrorThenOk) = Inr ''Hi''
   \<and> fst (fetchRewrittenText_cjs serverErrorThenOk) = Inr (Some ''Hi'')
   \<and> fst (createSummary serverErrorThenOk) = Inr ''Hi''"
proof -
  have f: "fetchWithRetry serverErrorThenOk =
     (Inr \<lparr>status = 200, statusText = ''OK'', payload = Content (Some ''Hi'')\<rparr>,
      [Fetched 0 (Answered \<lparr>status = 500, statusText = ''Internal Server Error'',
                            payload = Content None\<rparr>),
       Waited 1000,
       Fetched 1 (Answered \<lparr>status = 200, statusText = ''OK'', payload = Content (Some ''Hi'')\<rparr>)])"
    by (rule fetchWithRetry_status_then_ok) (simp_all add: serverErrorThenOk_def ok_def)
  have t: "trim ''Hi'' = ''Hi''" "stripQuotes ''Hi'' = ''Hi''"
    by code_simp+
  show ?thesis
    by (simp add: f fetchRewrittenText_def fetchRewrittenText_cjs_def createSummary_def t)
qed

text \<open>The other half of the claim holds: three rate-limited attempts end in the retry error.\<close>

lemma always_429_exhausts:
  "fst (fetchWithRetry alwaysRateLimited) = Inl RetriesFailed
   \<and> waits (snd (fetchWithRetry alwaysRateLimited)) = [1000, 2000, 4000]"
  using fetchWithRetry_exhausted [of alwaysRateLimited
      "\<lambda>i. \<lparr>status = 429, statusText = ''Too Many Requests'', payload = Content None\<rparr>"]
  by (simp add: alwaysRateLimited_def waits_def)

section \<open>Empty payloads\<close>

lemma fetchWithRetry_first_ok:
  "be 0 = Answered r \<Longrightarrow> ok r \<Longrightarrow> fetchWithRetry be = (Inr r, [Fetched 0 (Answered r)])"
  using retryLoop_ok [of 0 be r None "[]"] by (simp add: fetchWithRetry_def)

text \<open>
  C4 as stated fails on the summarize path. With an undefined payload \<^verbatim>\<open>createSummary\<close>
  returns the text \<^verbatim>\<open>'Summary failed.'\<close>, and \<^verbatim>\<open>summarizePageContent\<close> sends it to the
  download and answers \<^verbatim>\<open>{ success: true, summaryLength: 15 }\<close>.
\<close>

theorem summarize_empty_payload_succeeds:
  "summarizePageContent (replicate 100 CHR ''a'') emptyAnswer =
     (Summarized 15,
      [ProgressUpdate 25, ProgressUpdate 75, Download ''Summary failed.'', ProgressUpdate 100],
      [Fetched 0 (Answered \<lparr>status = 200, statusText = ''OK'', payload = Content None\<rparr>)])
   \<and> \<not> surfacesFailure (fst (summarizePageContent (replicate 100 CHR ''a'') emptyAnswer))"
proof -
  have t: "trim (replicate 100 CHR ''a'') = replicate 100 CHR ''a''"
    by (simp add: trim_def isSpace_def dropWhile_replicate)
  have f: "fetchWithRetry emptyAnswer =
      (Inr \<lparr>status = 200, statusText = ''OK'', payload = Content None\<rparr>,
       [Fetched 0 (Answered \<lparr>status = 200, statusText = ''OK'', payload = Content None\<rparr>)])"
    by (rule fetchWithRetry_first_ok) (simp_all add: emptyAnswer_def ok_def)
  show ?thesis
    by (simp add: summarizePageContent_def createSummary_def t f surfacesFailure_def)
qed

text \<open>
  C4, amended. When the request succeeds and the payload is undefined or the empty string,
  \<^verbatim>\<open>fetchRewrittenText\<close> of the OpenAI variant returns the original text it was given,
  \<^verbatim>\<open>fetchRewrittenText\<close> of \<^verbatim>\<open>content.js\<close> returns the payload as it is, and neither throws.
  The summarize path does not fail either: \<^verbatim>\<open>createSummary\<close> returns the placeholder
  \<^verbatim>\<open>'Summary failed.'\<close>, which \<^verbatim>\<open>summarizePageContent\<close> delivers as the summary, answering
  success with length 15.
\<close>

theorem empty_payload_call_sites:
  assumes "fetchWithRetry be = (Inr r, tr)"
      and "payload r = Content None \<or> payload r = Content (Some [])"
  shows "fetchRewrittenText txt be = (Inr txt, tr)
       \<and> fetchRewrittenText_cjs be = (Inr (case payload r of Content c \<Rightarrow> c), tr)
       \<and> createSummary be = (Inr ''Summary failed.'', tr)
       \<and> (mainContent \<noteq> [] \<and> 100 \<le> length (trim mainContent) \<longrightarrow>
            summarizePageContent mainContent be =
              (Summarized 15,
               [ProgressUpdate 25, ProgressUpdate 75, Download ''Summary failed.'',
                ProgressUpdate 100], tr))"
proof -
  have tr0: "trim [] = []"
    by (simp add: trim_def)
  have a: "fetchRewrittenText txt be = (Inr txt, tr)"
    using assms by (auto simp: fetchRewrittenText_def)
  have b: "fetchRewrittenText_cjs be = (Inr (case payload r of Content c \<Rightarrow> c), tr)"
    using assms by (auto simp: fetchRewrittenText_cjs_def)
  have c: "createSummary be = (Inr ''Summary failed.'', tr)"
    using assms tr0 by (auto simp: createSummary_def)
  have d: "mainContent \<noteq> [] \<and> 100 \<le> length (trim mainContent) \<longrightarrow>
            summarizePageContent mainContent be =
              (Summarized 15,
               [ProgressUpdate 25, ProgressUpdate 75, Download ''Summary failed.'',
                ProgressUpdate 100], tr)"
    by (simp add: summarizePageContent_def c)
  show ?thesis
    using a b c d by simp
qed

theorem empty_payload_call_sites_witness:
  "fetchRewrittenText ''Some original text'' emptyAnswer =
     (Inr ''Some original text'',
      [Fetched 0 (Answered \<lparr>status = 200, statusText = ''OK'', payload = Content None\<rparr>)])
   \<and> createSummary emptyAnswer =
     (Inr ''Summary failed.'',
      [Fetched 0 (Answered \<lparr>status = 200, statusText = ''OK'', payload = Content None\<rparr>)])
   \<and> summarizePageContent (replicate 100 CHR ''a'') emptyAnswer =
     (Summarized 15,
      [ProgressUpdate 25, ProgressUpdate 75, Download ''Summary failed.'', ProgressUpdate 100],
      [Fetched 0 (Answered \<lparr>status = 200, statusText = ''OK'', payload = Content None\<rparr>)])"
proof -
  have t: "trim (replicate 100 CHR ''a'') = replicate 100 CHR ''a''"
    by (simp add: trim_def isSpace_def dropWhile_replicate)
  have f: "fetchWithRetry emptyAnswer =
      (Inr \<lparr>status = 200, statusText = ''OK'', payload = Content None\<rparr>,
       [Fetched 0 (Answered \<lparr>status = 200, statusText = ''OK'', payload = Content None\<rparr>)])"
    by (rule fetchWithRetry_first_ok) (simp_all add: emptyAnswer_def ok_def)
  show ?thesis
    using empty_payload_call_sites [OF f, of "''Some original text''" "replicate 100 CHR ''a''"] t
    by simp
qed

section \<open>Length floors of the selection\<close>

lemma upper_is_ascii: "c \<in> set ''ABCDEFGHIJKLMNOPQRSTUVWXYZ'' \<Longrightarrow> (of_char c :: nat) < 128"
  by auto

lemma foldChar_fixes_high: "128 \<le> (of_char c :: nat) \<Longrightarrow> foldChar c = c"
proof (cases "map_of (zip ''ABCDEFGHIJKLMNOPQRSTUVWXYZ'' ''abcdefghijklmnopqrstuvwxyz'') c")
  case None
  then show ?thesis by (simp add: foldChar_def)
next
  case (Some l)
  then have "c \<in> set ''ABCDEFGHIJKLMNOPQRSTUVWXYZ''"
    by (meson map_of_SomeD set_zip_leftD)
  then have "(of_char c :: nat) < 128"
    by (rule upper_is_ascii)
  moreover assume "128 \<le> (of_char c :: nat)"
  ultimately show ?thesis by simp
qed

lemma toLowerChar_ascii:
  assumes "(of_char x :: nat) < 128"
  shows "(toLowerChar c = x) = (foldChar c = x)"
proof (cases "192 \<le> (of_char c :: nat) \<and> (of_char c :: nat) \<le> 222 \<and> (of_char c :: nat) \<noteq> 215")
  case True
  then have "(of_char (char_of (of_char c + 32 :: nat) :: char) :: nat) = of_char c + 32"
    by (simp add: of_char_of)
  then have "char_of (of_char c + 32 :: nat) \<noteq> x"
    using assms True by auto
  moreover have "foldChar c \<noteq> x"
    using assms True foldChar_fixes_high [of c] by auto
  ultimately show ?thesis
    using True by (simp add: toLowerChar_def)
next
  case False
  then show ?thesis
    by (auto simp: toLowerChar_def Let_def)
qed

lemma toLowerCase_ascii:
  "list_all (\<lambda>x. (of_char x :: nat) < 128) w \<Longrightarrow> (toLowerCase t = w) = (foldAscii t = w)"
proof (induction t arbitrary: w)
  case Nil
  then show ?case by (simp add: toLowerCase_def foldAscii_def)
next
  case (Cons c t)
  show ?case
  proof (cases w)
    case Nil
    then show ?thesis by (simp add: toLowerCase_def foldAscii_def)
  next
    case (Cons x w')
    then have x: "(of_char x :: nat) < 128" and w': "list_all (\<lambda>x. (of_char x :: nat) < 128) w'"
      using Cons.prems by simp_all
    have "(toLowerCase t = w') = (foldAscii t = w')"
      using Cons.IH [OF w'] .
    then show ?thesis
      using Cons toLowerChar_ascii [OF x, of c]
      by (simp add: toLowerCase_def foldAscii_def)
  qed
qed

lemma isHeadingTag_toLowerCase: "isHeadingTag (toLowerCase t) = isHeadingTagCI t"
  by (simp add: isHeadingTag_def isHeadingTagCI_def toLowerCase_ascii)

lemma trim_Nil: "trim [] = []"
  by (simp add: trim_def)

lemma long_text_nonempty: "n < length (trim s) \<Longrightarrow> s \<noteq> []"
  by (auto simp: trim_Nil)

text \<open>
  C6 as stated fails twice. The heading \<^verbatim>\<open><h1>Short title</h1>\<close> passes every helper of the
  selection (\<^verbatim>\<open>shouldProcessElementStrict\<close> and \<^verbatim>\<open>isRandomTextBlock\<close> exempt headings from
  their floors of 30 and 40) and is visible, outside navigation and not interactive, yet
  \<^verbatim>\<open>storeOriginalTexts\<close> does not record it: its own test
  \<^verbatim>\<open>element.textContent.trim().length > 25\<close> has no exemption. And a paragraph of 35
  characters, more than 30, is not recorded either: \<^verbatim>\<open>isRandomTextBlock\<close> rejects body text
  under 40.
\<close>

theorem short_heading_not_captured:
  "isHeadingTagCI (tagName shortHeading)
   \<and> shouldProcessElementStrict shortHeading
   \<and> \<not> isRandomTextBlock shortHeading
   \<and> isVisible shortHeading \<and> \<not> isInNav shortHeading \<and> \<not> isInteractive shortHeading
   \<and> textContent shortHeading \<noteq> []
   \<and> \<not> captures shortHeading
   \<and> length (trim (textContent paragraph35)) = 35
   \<and> shouldProcessElementStrict paragraph35
   \<and> \<not> captures paragraph35"
proof -
  have "isHeadingTagCI (tagName shortHeading)" by code_simp
  moreover have "shouldProcessElementStrict shortHeading" by code_simp
  moreover have "\<not> isRandomTextBlock shortHeading" by code_simp
  moreover have "isVisible shortHeading" by code_simp
  moreover have "\<not> isInNav shortHeading" by code_simp
  moreover have "\<not> isInteractive shortHeading" by code_simp
  moreover have "textContent shortHeading \<noteq> []" by code_simp
  moreover have "\<not> captures shortHeading" by code_simp
  moreover have "length (trim (textContent paragraph35)) = 35" by code_simp
  moreover have "shouldProcessElementStrict paragraph35" by code_simp
  moreover have "\<not> captures paragraph35" by code_simp
  ultimately show ?thesis by simp
qed

text \<open>
  C6, amended. An element is recorded exactly when it meets every other rule and its trimmed
  text is long enough: more than 25 characters for a heading (h1 to h6), which is exempt from
  the floors of 30 and 40 only, and at least 40 characters for body text.
\<close>

theorem captures_length_floors: "captures e = (lengthFloor e \<and> otherRules e)"
proof (cases "isHeadingTagCI (tagName e)")
  case True
  have "25 < length (trim (textContent e)) \<Longrightarrow> textContent e \<noteq> []"
    by (rule long_text_nonempty)
  with True show ?thesis
    unfolding captures_def shouldProcessElementStrict_def isRandomTextBlock_def
      lengthFloor_def otherRules_def Let_def isHeadingTag_toLowerCase
    by (simp cong: conj_cong) blast
next
  case False
  have "39 < length (trim (textContent e)) \<Longrightarrow> textContent e \<noteq> []"
    by (rule long_text_nonempty)
  with False show ?thesis
    unfolding captures_def shouldProcessElementStrict_def isRandomTextBlock_def
      lengthFloor_def otherRules_def Let_def isHeadingTag_toLowerCase
    by (simp cong: conj_cong)
qed

section \<open>Links across a patch (OpenAI variant)\<close>

lemma appendLinks_childNodes:
  "childNodes (foldl (\<lambda>el link. appendChild (appendChild el (Text '' '')) link) e links) =
     childNodes e @ concat (map (\<lambda>link. [Text '' '', link]) links)"
  by (induction links arbitrary: e) (simp_all add: appendChild_def)

lemma appendLinks_frame:
  "foldl (\<lambda>el link. appendChild (appendChild el (Text '' '')) link) e links =
     e\<lparr>childNodes := childNodes e @ concat (map (\<lambda>link. [Text '' '', link]) links)\<rparr>"
  by (induction links arbitrary: e) (simp_all add: appendChild_def)

lemma replaceElementTextSimple_eq:
  "replaceElementTextSimple ua e newText =
     e\<lparr>childNodes := Text (trim newText) # concat (map (\<lambda>link. [Text '' '', link]) (querySelectorAll_a e)),
       styleTransition := ''opacity 0.2s ease'', styleOpacity := ''0.9'',
       opacityTimers := opacityTimers e + 1\<rparr>"
  unfolding replaceElementTextSimple_def Let_def appendLinks_frame
  by (simp add: appendChild_def setInnerHTML_def)

lemma anchorsOf_are_anchors: "x \<in> set (anchorsOf n) \<Longrightarrow> isAnchor x"
  by (induction n) (auto simp: isAnchor_def split: if_splits)

lemma anchorsOf_anchor: "isAnchor n \<Longrightarrow> anchorsOf n = n # innerAnchors n"
  by (cases n) (simp_all add: isAnchor_def innerAnchors_def)

lemma anchors_of_spaced:
  "concat (map anchorsOf (concat (map (\<lambda>link. [Text '' '', link]) links))) =
     concat (map anchorsOf links)"
  by (induction links) simp_all

lemma anchors_flat:
  "list_all isAnchor links \<Longrightarrow> list_all (\<lambda>l. innerAnchors l = []) links \<Longrightarrow>
   concat (map anchorsOf links) = links"
  by (induction links) (simp_all add: anchorsOf_anchor)

lemma querySelectorAll_a_anchors: "list_all isAnchor (querySelectorAll_a e)"
  by (auto simp: querySelectorAll_a_def list_all_iff dest: anchorsOf_are_anchors)

lemma anchors_after_patch:
  "querySelectorAll_a (replaceElementTextSimple ua e newText) =
     concat (map anchorsOf (querySelectorAll_a e))"
  by (simp add: replaceElementTextSimple_eq querySelectorAll_a_def anchors_of_spaced)

text \<open>
  C7 as stated fails where one anchor lies inside another, as in
  \<^verbatim>\<open><p><a href="/outer">outer <object><a href="/inner">inner</a></object></a></p>\<close>.
  \<^verbatim>\<open>querySelectorAll('a')\<close> returns the outer and the inner anchor; the clone of the outer
  one carries a copy of the inner one, and the inner one is appended once more: two anchors
  before the patch, three after.
\<close>

theorem nested_anchor_is_duplicated:
  "length (querySelectorAll_a nestedLinks) = 2
   \<and> length (querySelectorAll_a (replaceElementTextSimple simpleBrowser nestedLinks ''New text'')) = 3"
  by code_simp

lemma cloned_links_survive:
  assumes "noNestedAnchors e"
  shows "childNodes (replaceElementTextSimple ua e newText) =
           Text (trim newText) # concat (map (\<lambda>link. [Text '' '', link]) (querySelectorAll_a e))
         \<and> querySelectorAll_a (replaceElementTextSimple ua e newText) = querySelectorAll_a e
         \<and> length (querySelectorAll_a (replaceElementTextSimple ua e newText)) = length (querySelectorAll_a e)
         \<and> map href (querySelectorAll_a (replaceElementTextSimple ua e newText)) = map href (querySelectorAll_a e)"
proof -
  have "querySelectorAll_a (replaceElementTextSimple ua e newText) = querySelectorAll_a e"
    using assms anchors_flat [OF querySelectorAll_a_anchors, of e]
    by (simp add: anchors_after_patch noNestedAnchors_def)
  then show ?thesis
    by (simp add: replaceElementTextSimple_eq)
qed

section \<open>Links across a patch (\<^verbatim>\<open>content.js\<close>)\<close>

lemma detach_info:
  "detachN l n = (r, n') \<Longrightarrow>
     mset (infoN n) = (case r of None \<Rightarrow> {#} | Some x \<Rightarrow> mset (infoN x)) + mset (infoN n')"
  "detachF l ns = (r, ns') \<Longrightarrow>
     mset (infoF ns) = (case r of None \<Rightarrow> {#} | Some x \<Rightarrow> mset (infoN x)) + mset (infoF ns')"
proof (induction l n and l ns arbitrary: r n' and r ns' rule: detachN_detachF.induct)
  case (1 l s)
  then show ?case by auto
next
  case (2 l i t as cs)
  then show ?case by (auto split: prod.splits)
next
  case (3 l)
  then show ?case by auto
next
  case (4 l n ns)
  then show ?case
    by (auto split: prod.splits option.splits if_splits)
qed

lemma detach_none:
  "detachN l n = (None, n') \<Longrightarrow> n' = n \<and> (ident n \<noteq> Some l \<longrightarrow> l \<notin> fst ` set (infoN n))"
  "detachF l ns = (None, ns') \<Longrightarrow> ns' = ns \<and> l \<notin> fst ` set (infoF ns)"
proof (induction l n and l ns arbitrary: n' and ns' rule: detachN_detachF.induct)
  case (1 l s)
  then show ?case by auto
next
  case (2 l i t as cs)
  then show ?case by (auto split: prod.splits)
next
  case (3 l)
  then show ?case by auto
next
  case (4 l n ns)
  then show ?case
    by (cases n) (auto split: prod.splits option.splits if_splits)
qed

lemma detach_some:
  "detachN l n = (Some x, n') \<Longrightarrow> ident x = Some l"
  "detachF l ns = (Some x, ns') \<Longrightarrow> ident x = Some l"
proof (induction l n and l ns arbitrary: n' and ns' rule: detachN_detachF.induct)
  case (1 l s)
  then show ?case by auto
next
  case (2 l i t as cs)
  then show ?case by (auto split: prod.splits)
next
  case (3 l)
  then show ?case by auto
next
  case (4 l n ns)
  then show ?case
    by (auto split: prod.splits option.splits if_splits)
qed

lemma detach_roots:
  "detachN l n = (r, n') \<Longrightarrow> root n' = root n"
  "detachF l ns = (r, ns') \<Longrightarrow> Some l \<notin> set (map ident ns) \<Longrightarrow> map root ns' = map root ns"
proof (induction l n and l ns arbitrary: r n' and r ns' rule: detachN_detachF.induct)
  case (1 l s)
  then show ?case by auto
next
  case (2 l i t as cs)
  then show ?case by (auto split: prod.splits)
next
  case (3 l)
  then show ?case by auto
next
  case (4 l n ns)
  then show ?case
    by (auto split: prod.splits option.splits if_splits)
qed

lemma lanchors_info:
  "map info1 (lanchorsN n) = filter (\<lambda>x. fst (snd x) = ''a'') (infoN n)"
  "map info1 (lanchorsF ns) = filter (\<lambda>x. fst (snd x) = ''a'') (infoF ns)"
  by (induction n and ns rule: lanchorsN_lanchorsF.induct) auto

lemma infoF_append: "infoF (xs @ ys) = infoF xs @ infoF ys"
  by (induction xs) simp_all

lemma lanchorsF_append: "lanchorsF (xs @ ys) = lanchorsF xs @ lanchorsF ys"
  by (induction xs) simp_all

lemma ident_root: "ident (root n) = ident n"
  by (cases n) simp_all

lemma info1_own: "ident n = Some l \<Longrightarrow> info1 n \<in> set (infoN n) \<and> fst (info1 n) = l"
  by (cases n) simp_all

lemma root_by_info: "ident n = Some l \<Longrightarrow> ident a = Some l' \<Longrightarrow> info1 n = info1 a \<Longrightarrow> root n = root a"
  by (cases n; cases a) simp_all

lemma unique_info:
  "distinct (map fst xs) \<Longrightarrow> x \<in> set xs \<Longrightarrow> y \<in> set xs \<Longrightarrow> fst x = fst y \<Longrightarrow> x = y"
  by (metis eq_key_imp_eq_value prod.collapse)

lemma anchors_are_elems:
  "a \<in> set (lanchorsN n) \<Longrightarrow> ident a = Some (labelOf a)"
  "a \<in> set (lanchorsF ns) \<Longrightarrow> ident a = Some (labelOf a)"
  by (induction n and ns rule: lanchorsN_lanchorsF.induct) (auto simp: labelOf_def split: if_splits)

lemma anchor_info: "a \<in> set (lanchorsF F) \<Longrightarrow> info1 a \<in> set (infoF F)"
proof -
  assume "a \<in> set (lanchorsF F)"
  then have "info1 a \<in> set (map info1 (lanchorsF F))" by simp
  then show ?thesis by (simp add: lanchors_info)
qed

lemma anchor_labels_distinct:
  assumes "distinct (map fst (infoF F))"
  shows "distinct (map labelOf (lanchorsF F))"
proof -
  have "map labelOf (lanchorsF F) = map fst (map info1 (lanchorsF F))"
    by (simp add: labelOf_def comp_def)
  then show ?thesis
    using assms by (simp add: lanchors_info distinct_map_filter)
qed

lemma moveTo_step:
  assumes dist: "distinct (map fst (infoF F0))"
      and total: "mset (infoF C) + mset (infoF D) = mset (infoF F0)"
      and a: "a \<in> set (lanchorsF F0)"
      and top: "Some (labelOf a) \<notin> set (map ident C)"
  shows "mset (infoF (fst (moveTo (labelOf a) (C, D)))) + mset (infoF (snd (moveTo (labelOf a) (C, D))))
           = mset (infoF F0)
         \<and> map root (fst (moveTo (labelOf a) (C, D))) = map root C @ [root a]"
proof -
  let ?l = "labelOf a"
  have ida: "ident a = Some ?l"
    using a by (rule anchors_are_elems)
  have ina: "info1 a \<in> set (infoF F0)"
    using a by (rule anchor_info)
  have same: "root n = root a" if n: "ident n = Some ?l" and inn: "set (infoN n) \<subseteq> set (infoF F0)" for n
  proof -
    have "info1 n \<in> set (infoF F0)" "fst (info1 n) = ?l"
      using info1_own [OF n] inn by auto
    moreover have "fst (info1 a) = ?l"
      by (simp add: labelOf_def)
    ultimately have "info1 n = info1 a"
      using unique_info [OF dist _ ina] by simp
    then show ?thesis
      using n ida by (rule root_by_info [rotated 2])
  qed
  have sub: "set (infoF C) \<union> set (infoF D) = set (infoF F0)"
    using total by (metis set_mset_mset set_mset_union)
  obtain r C' where dc: "detachF ?l C = (r, C')"
    by (cases "detachF ?l C")
  show ?thesis
  proof (cases r)
    case (Some n)
    have n: "ident n = Some ?l"
      using dc Some detach_some(2) by blast
    have split: "mset (infoF C) = mset (infoN n) + mset (infoF C')"
      using detach_info(2) [OF dc] Some by simp
    then have "set (infoN n) \<subseteq> set (infoF C)"
      by (metis set_mset_mset set_mset_union Un_upper1)
    then have "root n = root a"
      using same [OF n] sub by blast
    moreover have "map root C' = map root C"
      using detach_roots(2) [OF dc top] .
    ultimately show ?thesis
      using dc Some split total by (simp add: moveTo_def infoF_append ac_simps)
  next
    case None
    then have notC: "?l \<notin> fst ` set (infoF C)" and C': "C' = C"
      using detach_none(2) dc by blast+
    have "?l \<in> fst ` set (infoF F0)"
      using ina by (metis labelOf_def image_eqI)
    then have inD: "?l \<in> fst ` set (infoF D)"
      using notC sub by blast
    obtain r' D' where dd: "detachF ?l D = (r', D')"
      by (cases "detachF ?l D")
    then obtain n where r': "r' = Some n"
      using inD detach_none(2) [of ?l D D'] by (cases r') auto
    have n: "ident n = Some ?l"
      using dd r' detach_some(2) by blast
    have split: "mset (infoF D) = mset (infoN n) + mset (infoF D')"
      using detach_info(2) [OF dd] r' by simp
    then have "set (infoN n) \<subseteq> set (infoF D)"
      by (metis set_mset_mset set_mset_union Un_upper1)
    then have "root n = root a"
      using same [OF n] sub by blast
    then show ?thesis
      using dc None dd r' split total by (simp add: moveTo_def infoF_append ac_simps)
  qed
qed

lemma links_loop:
  assumes dist: "distinct (map fst (infoF F0))"
      and total: "mset (infoF C) + mset (infoF D) = mset (infoF F0)"
      and parts: "finished @ todo = lanchorsF F0"
      and shape: "map root C = LText s # spaced finished"
  shows "map root (fst (foldl appendLink (C, D) (map labelOf todo))) = LText s # spaced (finished @ todo)
         \<and> mset (infoF (fst (foldl appendLink (C, D) (map labelOf todo))))
             + mset (infoF (snd (foldl appendLink (C, D) (map labelOf todo)))) = mset (infoF F0)"
  using total parts shape
proof (induction todo arbitrary: C D finished)
  case Nil
  then show ?case by simp
next
  case (Cons a todo)
  let ?C1 = "C @ [LText '' '']"
  let ?next = "moveTo (labelOf a) (?C1, D)"
  have a: "a \<in> set (lanchorsF F0)"
    using Cons.prems(2) by (metis in_set_conv_decomp)
  have "distinct (map labelOf (finished @ a # todo))"
    using anchor_labels_distinct [OF dist] Cons.prems(2) by simp
  then have fresh: "labelOf a \<notin> labelOf ` set finished"
    by auto
  have idents: "map ident C = None # concat (map (\<lambda>x. [None, ident x]) finished)"
  proof -
    have "map ident C = map ident (map root C)"
      by (simp add: ident_root comp_def)
    also have "\<dots> = None # concat (map (\<lambda>x. [None, ident x]) finished)"
      unfolding Cons.prems(3) spaced_def
      by (induction finished) (simp_all add: ident_root)
    finally show ?thesis .
  qed
  have known: "ident x = Some (labelOf x)" if "x \<in> set finished" for x
  proof -
    have "x \<in> set (lanchorsF F0)"
      using that Cons.prems(2) by (metis Un_iff set_append)
    then show ?thesis by (rule anchors_are_elems)
  qed
  have top: "Some (labelOf a) \<notin> set (map ident ?C1)"
  proof
    assume "Some (labelOf a) \<in> set (map ident ?C1)"
    then have "Some (labelOf a) \<in> set (concat (map (\<lambda>x. [None, ident x]) finished))"
      using idents by auto
    then obtain x where "x \<in> set finished" "ident x = Some (labelOf a)"
      by (auto split: if_splits)
    then have "labelOf x = labelOf a" "x \<in> set finished"
      using known by auto
    then show False
      using fresh by (metis image_eqI)
  qed
  have total1: "mset (infoF ?C1) + mset (infoF D) = mset (infoF F0)"
    using Cons.prems(1) by (simp add: infoF_append)
  have step: "mset (infoF (fst ?next)) + mset (infoF (snd ?next)) = mset (infoF F0)
      \<and> map root (fst ?next) = map root ?C1 @ [root a]"
    using moveTo_step [OF dist total1 a top] .
  have shape': "map root (fst ?next) = LText s # spaced (finished @ [a])"
    using step Cons.prems(3) by (simp add: spaced_def)
  have "map root (fst (foldl appendLink (fst ?next, snd ?next) (map labelOf todo))) =
        LText s # spaced ((finished @ [a]) @ todo)
      \<and> mset (infoF (fst (foldl appendLink (fst ?next, snd ?next) (map labelOf todo))))
         + mset (infoF (snd (foldl appendLink (fst ?next, snd ?next) (map labelOf todo))))
         = mset (infoF F0)"
    using step Cons.prems(2) shape'
    by (intro Cons.IH) simp_all
  moreover have "foldl appendLink (C, D) (map labelOf (a # todo)) =
      foldl appendLink (fst ?next, snd ?next) (map labelOf todo)"
    by (simp add: appendLink_def [of "(C, D)"])
  ultimately show ?case
    by simp
qed

lemma topInfo_sub: "mset (topInfo F) \<subseteq># mset (infoF F)"
proof (induction F rule: topInfo.induct)
  case 1
  then show ?case by simp
next
  case (2 s ns)
  then show ?case by simp
next
  case (3 i t as cs ns)
  have "mset (topInfo ns) \<subseteq># mset (infoF cs) + mset (infoF ns)"
    using 3 by (simp add: subset_mset.le_supI2 subset_mset.add_increasing)
  then show ?case by simp
qed

lemma topInfo_root: "topInfo (map root F) = topInfo F"
  by (induction F rule: topInfo.induct) simp_all

lemma topInfo_spaced:
  "(\<And>a. a \<in> set as \<Longrightarrow> ident a = Some (labelOf a)) \<Longrightarrow> topInfo (spaced as) = map info1 as"
proof (induction as)
  case Nil
  then show ?case by (simp add: spaced_def)
next
  case (Cons a as)
  then have "ident a = Some (labelOf a)" by simp
  then obtain i t ats cs where "a = LElem i t ats cs"
    by (cases a) simp_all
  then show ?case
    using Cons by (simp add: spaced_def)
qed

lemma moved_links_survive:
  assumes dist: "distinct (map fst (infoF children))"
  shows "(lanchorsF children \<noteq> [] \<longrightarrow>
           map root (replaceChildren_cjs children newText) =
             LText (trim newText) # spaced (lanchorsF children))
         \<and> mset (map info1 (lanchorsF (replaceChildren_cjs children newText))) =
             mset (map info1 (lanchorsF children))"
proof (cases "lanchorsF children = []")
  case True
  then show ?thesis
    by (simp add: replaceChildren_cjs_def Let_def)
next
  case False
  let ?A = "lanchorsF children"
  let ?end = "foldl appendLink ([LText (trim newText)], children) (map labelOf ?A)"
  have R: "replaceChildren_cjs children newText = fst ?end"
    using False by (simp add: replaceChildren_cjs_def)
  have loop: "map root (fst ?end) = LText (trim newText) # spaced ([] @ ?A)
      \<and> mset (infoF (fst ?end)) + mset (infoF (snd ?end)) = mset (infoF children)"
    by (rule links_loop [OF dist]) (simp_all add: spaced_def)
  then have shape: "map root (fst ?end) = LText (trim newText) # spaced ?A"
    and total: "mset (infoF (fst ?end)) + mset (infoF (snd ?end)) = mset (infoF children)"
    by simp_all
  let ?isA = "\<lambda>x :: nat \<times> string \<times> (string \<times> string) list. fst (snd x) = ''a''"
  have le: "filter_mset ?isA (mset (infoF (fst ?end))) \<subseteq># filter_mset ?isA (mset (infoF children))"
  proof -
    have "mset (infoF (fst ?end)) \<subseteq># mset (infoF children)"
      using total by (metis mset_subset_eq_add_left)
    then show ?thesis by (rule multiset_filter_mono)
  qed
  have "topInfo (fst ?end) = map info1 ?A"
  proof -
    have "topInfo (fst ?end) = topInfo (map root (fst ?end))"
      by (simp add: topInfo_root)
    also have "\<dots> = topInfo (spaced ?A)"
      by (simp add: shape)
    also have "\<dots> = map info1 ?A"
      by (rule topInfo_spaced) (rule anchors_are_elems)
    finally show ?thesis .
  qed
  then have "mset (map info1 ?A) \<subseteq># mset (infoF (fst ?end))"
    using topInfo_sub [of "fst ?end"] by simp
  then have s2: "filter_mset ?isA (mset (map info1 ?A)) \<subseteq># filter_mset ?isA (mset (infoF (fst ?end)))"
    by (rule multiset_filter_mono)
  have all: "mset (map info1 ?A) = filter_mset ?isA (mset (infoF children))"
    by (simp add: lanchors_info)
  have s3: "filter_mset ?isA (mset (map info1 ?A)) = filter_mset ?isA (mset (infoF children))"
    unfolding all by (simp add: filter_filter_mset)
  have ge: "filter_mset ?isA (mset (infoF children)) \<subseteq># filter_mset ?isA (mset (infoF (fst ?end)))"
    using s2 unfolding s3 .
  have "mset (map info1 (lanchorsF (fst ?end))) = filter_mset ?isA (mset (infoF (fst ?end)))"
    by (simp add: lanchors_info)
  also have "\<dots> = filter_mset ?isA (mset (infoF children))"
    using le ge by (rule subset_mset.antisym)
  finally show ?thesis
    using shape all by (simp add: R)
qed

lemma label_erase:
  "eraseN (fst (labelN k n)) = n"
  "map eraseN (fst (labelF k ns)) = ns"
  by (induction k n and k ns rule: labelN_labelF.induct) (auto split: prod.splits)

lemma label_range:
  "k \<le> snd (labelN k n) \<and> map fst (infoN (fst (labelN k n))) = [k..<snd (labelN k n)]"
  "k \<le> snd (labelF k ns) \<and> map fst (infoF (fst (labelF k ns))) = [k..<snd (labelF k ns)]"
proof (induction k n and k ns rule: labelN_labelF.induct)
  case (1 k s)
  then show ?case by simp
next
  case (2 k t as cs)
  then show ?case
    by (auto split: prod.splits simp: upt_conv_Cons)
next
  case (3 k)
  then show ?case by simp
next
  case (4 k n ns)
  obtain n' k1 where n: "labelN k n = (n', k1)"
    by (cases "labelN k n")
  obtain ns' k2 where ns: "labelF k1 ns = (ns', k2)"
    by (cases "labelF k1 ns")
  have a: "k \<le> k1" "map fst (infoN n') = [k..<k1]"
    using 4(1) n by simp_all
  have b: "k1 \<le> k2" "map fst (infoF ns') = [k1..<k2]"
    using 4(2) [OF n [symmetric]] n ns by simp_all
  have "[k..<k1] @ [k1..<k2] = [k..<k2]"
    using a(1) b(1) by (metis le_Suc_ex upt_add_eq_append)
  then show ?case
    using a b n ns by simp
qed

lemma label_distinct: "distinct (map fst (infoF (fst (labelF k ns))))"
  by (simp add: label_range)

lemma erase_anchors:
  "anchorsOf (eraseN n) = map eraseN (lanchorsN n)"
  "concat (map anchorsOf (map eraseN ns)) = map eraseN (lanchorsF ns)"
  by (induction n and ns rule: lanchorsN_lanchorsF.induct) (simp_all add: comp_def)

lemma erase_href: "href (eraseN n) = map_of (snd (snd (info1 n))) ''href''"
  by (cases n) (simp_all add: href_def)

lemma erase_root: "rootOf (eraseN n) = eraseN (root n)"
  by (cases n) simp_all

lemma anchors_of_labelled:
  "map eraseN (lanchorsF (fst (labelF 0 (childNodes e)))) = querySelectorAll_a e"
  using erase_anchors(2) [of "fst (labelF 0 (childNodes e))"]
  by (simp add: label_erase querySelectorAll_a_def)

lemma moved_links_survive_element:
  "length (querySelectorAll_a (replaceElementTextSimple_cjs e newText)) = length (querySelectorAll_a e)
   \<and> mset (map href (querySelectorAll_a (replaceElementTextSimple_cjs e newText))) =
       mset (map href (querySelectorAll_a e))
   \<and> map rootOf (childNodes (replaceElementTextSimple_cjs e newText)) =
       (if querySelectorAll_a e \<noteq> []
        then Text (trim newText) # concat (map (\<lambda>a. [Text '' '', rootOf a]) (querySelectorAll_a e))
        else if trim newText = [] then [] else [Text (trim newText)])"
proof -
  let ?F = "fst (labelF 0 (childNodes e))"
  let ?R = "replaceChildren_cjs ?F newText"
  have dist: "distinct (map fst (infoF ?F))"
    by (rule label_distinct)
  note main = moved_links_survive [OF dist, of newText]
  have A: "map eraseN (lanchorsF ?F) = querySelectorAll_a e"
    by (rule anchors_of_labelled)
  have R: "querySelectorAll_a (replaceElementTextSimple_cjs e newText) = map eraseN (lanchorsF ?R)"
    using erase_anchors(2) [of ?R]
    by (simp add: replaceElementTextSimple_cjs_def querySelectorAll_a_def)
  have infos: "mset (map info1 (lanchorsF ?R)) = mset (map info1 (lanchorsF ?F))"
    using main by simp
  have "size (mset (map info1 (lanchorsF ?R))) = size (mset (map info1 (lanchorsF ?F)))"
    using infos by (rule arg_cong)
  then have len: "length (lanchorsF ?R) = length (lanchorsF ?F)"
    by simp
  have hrefs: "mset (map href (map eraseN (lanchorsF ?R))) = mset (map href (map eraseN (lanchorsF ?F)))"
  proof -
    have "mset (map (\<lambda>x. map_of (snd (snd x)) ''href'') (map info1 (lanchorsF ?R))) =
        mset (map (\<lambda>x. map_of (snd (snd x)) ''href'') (map info1 (lanchorsF ?F)))"
      using arg_cong [OF infos, of "image_mset (\<lambda>x. map_of (snd (snd x)) ''href'')"]
      by (simp add: multiset.map_comp)
    then show ?thesis
      by (simp add: comp_def erase_href)
  qed
  have shape: "map rootOf (childNodes (replaceElementTextSimple_cjs e newText)) =
       (if querySelectorAll_a e \<noteq> []
        then Text (trim newText) # concat (map (\<lambda>a. [Text '' '', rootOf a]) (querySelectorAll_a e))
        else if trim newText = [] then [] else [Text (trim newText)])"
  proof (cases "lanchorsF ?F = []")
    case True
    then have "querySelectorAll_a e = []"
      using A by simp
    then show ?thesis
      using True
      by (simp add: replaceElementTextSimple_cjs_def replaceChildren_cjs_def Let_def)
  next
    case False
    then have ne: "querySelectorAll_a e \<noteq> []"
      using A by (metis map_is_Nil_conv)
    have "map root ?R = LText (trim newText) # spaced (lanchorsF ?F)"
      using main False by simp
    then have "map eraseN (map root ?R) = map eraseN (LText (trim newText) # spaced (lanchorsF ?F))"
      by simp
    moreover have "map eraseN (spaced as) = concat (map (\<lambda>a. [Text '' '', rootOf a]) (map eraseN as))" for as
      by (induction as) (simp_all add: spaced_def erase_root)
    ultimately have "map rootOf (map eraseN ?R) =
        Text (trim newText) # concat (map (\<lambda>a. [Text '' '', rootOf a]) (map eraseN (lanchorsF ?F)))"
      by (simp add: comp_def erase_root)
    then show ?thesis
      using ne by (simp add: replaceElementTextSimple_cjs_def A)
  qed
  show ?thesis
    using len hrefs shape by (simp add: R A [symmetric])
qed

text \<open>Here the nested anchor is moved out of the outer one, and two anchors stay two.\<close>

lemma nested_anchor_is_moved:
  "childNodes (replaceElementTextSimple_cjs nestedLinks ''New text'') =
     [Text ''New text'',
      Text '' '', Elem ''a'' [(''href'', ''/outer'')] [Text ''outer '', Elem ''object'' [] []],
      Text '' '', Elem ''a'' [(''href'', ''/inner'')] [Text ''inner'']]"
  by code_simp

text \<open>
  C7, amended. OpenAI variant: for an element none of whose anchors contains another anchor,
  after the patch the children are the trimmed new text as one text node, followed for each
  former anchor, in document order, by a text node of one space and a copy of the anchor; the
  anchors of the element are the same as before, as many and with the same \<^verbatim>\<open>href\<close> values.
  \<^verbatim>\<open>content.js\<close>: for every element, after the patch the element has as many anchors as
  before, with the same \<^verbatim>\<open>href\<close> values, and when it had an anchor its children are the
  trimmed new text followed for each former anchor, in document order, by a text node of one
  space and that anchor. In both, the new text is one text node, whatever it contains.
\<close>

theorem links_survive:
  "(noNestedAnchors e \<longrightarrow>
      childNodes (replaceElementTextSimple ua e newText) =
        Text (trim newText) # concat (map (\<lambda>link. [Text '' '', link]) (querySelectorAll_a e))
      \<and> querySelectorAll_a (replaceElementTextSimple ua e newText) = querySelectorAll_a e
      \<and> length (querySelectorAll_a (replaceElementTextSimple ua e newText)) = length (querySelectorAll_a e)
      \<and> map href (querySelectorAll_a (replaceElementTextSimple ua e newText)) =
          map href (querySelectorAll_a e))
   \<and> length (querySelectorAll_a (replaceElementTextSimple_cjs e newText)) = length (querySelectorAll_a e)
   \<and> mset (map href (querySelectorAll_a (replaceElementTextSimple_cjs e newText))) =
       mset (map href (querySelectorAll_a e))
   \<and> map rootOf (childNodes (replaceElementTextSimple_cjs e newText)) =
       (if querySelectorAll_a e \<noteq> []
        then Text (trim newText) # concat (map (\<lambda>a. [Text '' '', rootOf a]) (querySelectorAll_a e))
        else if trim newText = [] then [] else [Text (trim newText)])"
  using cloned_links_survive [where e = e and newText = newText and ua = ua]
    moved_links_survive_element [of e newText]
  by blast

theorem links_survive_witness:
  "noNestedAnchors twoLinks
   \<and> childNodes (replaceElementTextSimple simpleBrowser twoLinks '' <a href=x>New</a> text '') =
     [Text ''<a href=x>New</a> text'',
      Text '' '', Elem ''a'' [(''href'', ''/one'')] [Text ''one''],
      Text '' '', Elem ''a'' [(''href'', ''/two'')] [Text ''two'']]
   \<and> map href (querySelectorAll_a (replaceElementTextSimple simpleBrowser twoLinks '' <a href=x>New</a> text '')) =
     [Some ''/one'', Some ''/two'']
   \<and> length (querySelectorAll_a (replaceElementTextSimple_cjs twoLinks '' <a href=x>New</a> text '')) = 2"
proof -
  have h: "noNestedAnchors twoLinks" by code_simp
  have t: "trim '' <a href=x>New</a> text '' = ''<a href=x>New</a> text''" by code_simp
  have q: "querySelectorAll_a twoLinks =
      [Elem ''a'' [(''href'', ''/one'')] [Text ''one''],
       Elem ''a'' [(''href'', ''/two'')] [Text ''two'']]" by code_simp
  show ?thesis
    using links_survive [where e = twoLinks and newText = "'' <a href=x>New</a> text ''"
        and ua = simpleBrowser] h
    by (simp add: t q href_def)
qed

section \<open>Lists updated at distinct places\<close>

lemma foldl_update_length:
  "length (foldl (\<lambda>d e. d[key e := f e (d ! key e)]) d es) = length d"
  by (induction es arbitrary: d) simp_all

lemma foldl_update_other:
  "h \<notin> key ` set es \<Longrightarrow> foldl (\<lambda>d e. d[key e := f e (d ! key e)]) d es ! h = d ! h"
  by (induction es arbitrary: d) simp_all

lemma foldl_update_at:
  "distinct (map key es) \<Longrightarrow> e \<in> set es \<Longrightarrow> key e < length d \<Longrightarrow>
   foldl (\<lambda>d e. d[key e := f e (d ! key e)]) d es ! key e = f e (d ! key e)"
proof (induction es arbitrary: d)
  case Nil
  then show ?case by simp
next
  case (Cons x xs)
  show ?case
  proof (cases "e = x")
    case True
    then have "key x \<notin> key ` set xs"
      using Cons.prems(1) by simp
    then show ?thesis
      using True Cons.prems(3) by (simp add: foldl_update_other)
  next
    case False
    then have e: "e \<in> set xs"
      using Cons.prems(2) by simp
    then have ne: "key e \<noteq> key x"
      using Cons.prems(1) by (auto simp: image_iff)
    have "foldl (\<lambda>d e. d[key e := f e (d ! key e)]) (d[key x := f x (d ! key x)]) xs ! key e =
        f e (d[key x := f x (d ! key x)] ! key e)"
      using Cons.IH [of "d[key x := f x (d ! key x)]"] Cons.prems(1,3) e by simp
    then show ?thesis
      using ne by simp
  qed
qed

section \<open>The store after a capture\<close>

lemma update_fresh: "k \<notin> fst ` set m \<Longrightarrow> AList.update k v m = m @ [(k, v)]"
  by (induction m) auto

lemma storeLoop_eq:
  "\<forall>k \<in> fst ` set m. k < index \<Longrightarrow>
   storeLoop ua doc hs index m =
     m @ zip [index..<index + length (filter (\<lambda>h. captures (doc ! h)) hs)]
            (map (snapshot ua doc) (filter (\<lambda>h. captures (doc ! h)) hs))"
proof (induction hs arbitrary: index m)
  case Nil
  then show ?case by simp
next
  case (Cons h hs)
  show ?case
  proof (cases "captures (doc ! h)")
    case True
    have fresh: "index \<notin> fst ` set m"
      using Cons.prems by auto
    have keys: "\<forall>k \<in> fst ` set (m @ [(index, snapshot ua doc h)]). k < index + 1"
      using Cons.prems by auto
    have upt: "[index..<Suc (index + n)] = index # [Suc index..<Suc (index + n)]" for n
      by (rule upt_conv_Cons) simp
    show ?thesis
      using True Cons.IH [OF keys] fresh
      by (simp add: update_fresh upt del: upt_Suc)
  next
    case False
    then show ?thesis
      using Cons.IH [OF Cons.prems] by simp
  qed
qed

lemma storeOriginalTexts_store:
  "originalTexts (storeOriginalTexts ua st) =
     zip [0..<length (captured (document st))] (map (snapshot ua (document st)) (captured (document st)))"
  using storeLoop_eq [where m = "[]" and index = 0 and doc = "document st"
        and hs = "textElements (document st)" and ua = ua]
  by (simp add: storeOriginalTexts_def captured_def)

lemma storeOriginalTexts_document: "document (storeOriginalTexts ua st) = document st"
  by (simp add: storeOriginalTexts_def)

lemma captured_distinct: "distinct (captured doc)"
  by (simp add: captured_def textElements_def)

lemma captured_valid: "h \<in> set (captured doc) \<Longrightarrow> h < length doc \<and> captures (doc ! h)"
  by (auto simp: captured_def textElements_def)

lemma storeOf_handles: "map (\<lambda>e. itemElement (snd e)) (storeOf ua doc) = captured doc"
proof -
  have "map snd (storeOf ua doc) = map (snapshot ua doc) (captured doc)"
    by (simp add: storeOf_def)
  then have "map itemElement (map snd (storeOf ua doc)) = map itemElement (map (snapshot ua doc) (captured doc))"
    by simp
  then show ?thesis
    by (simp add: comp_def snapshot_def)
qed

lemma storeOf_entry:
  assumes "e \<in> set (storeOf ua doc)"
  shows "itemElement (snd e) \<in> set (captured doc)"
    and "originalText (snd e) = textContent (doc ! itemElement (snd e))"
    and "originalHTML (snd e) = innerHTML ua (doc ! itemElement (snd e))"
proof -
  have "snd e \<in> set (map (snapshot ua doc) (captured doc))"
    using assms by (metis storeOf_def set_zip_rightD prod.collapse)
  then obtain h where h: "h \<in> set (captured doc)" "snd e = snapshot ua doc h"
    by auto
  show "itemElement (snd e) \<in> set (captured doc)"
    using h by (simp add: snapshot_def)
  show "originalText (snd e) = textContent (doc ! itemElement (snd e))"
    using h by (simp add: snapshot_def)
  show "originalHTML (snd e) = innerHTML ua (doc ! itemElement (snd e))"
    using h by (simp add: snapshot_def)
qed

lemma storeOf_distinct: "distinct (map (\<lambda>e. itemElement (snd e)) (storeOf ua doc))"
  by (simp add: storeOf_handles captured_distinct)

lemma storeOf_has:
  assumes "h \<in> set (captured doc)"
  shows "\<exists>e \<in> set (storeOf ua doc). itemElement (snd e) = h"
proof -
  have "h \<in> set (map (\<lambda>e. itemElement (snd e)) (storeOf ua doc))"
    using assms by (simp add: storeOf_handles)
  then show ?thesis by auto
qed

section \<open>The rewrite pipeline as one update of the session\<close>

lemma chunkLoop_concat: "concat (chunkLoop items i chunks) = concat chunks @ drop i items"
proof (induction items i chunks rule: chunkLoop.induct)
  case (1 items i chunks)
  show ?case
  proof (cases "i < length items")
    case True
    have "take MAX_CONCURRENT_REQUESTS (drop i items) @ drop (i + MAX_CONCURRENT_REQUESTS) items =
        drop i items"
      by (metis add.commute append_take_drop_id drop_drop)
    then show ?thesis
      using True 1 by (simp add: chunkLoop.simps [of items i chunks])
  next
    case False
    then show ?thesis
      by (simp add: chunkLoop.simps [of items i chunks])
  qed
qed

lemma foldl_chunks: "foldl (\<lambda>acc chunk. foldl f acc chunk) a chunks = foldl f a (concat chunks)"
  by (induction chunks arbitrary: a) simp_all

lemma rewriteTextElementsParallel_eq:
  "rewriteTextElementsParallel ua be st =
     fst (foldl (rewriteItem ua be (length (originalTexts st))) (st, 0) (originalTexts st))"
  by (simp add: rewriteTextElementsParallel_def Let_def foldl_chunks chunkLoop_concat)

lemma rewriteItem_eq:
  "rewriteItem ua be tot (st, p) e =
     (st\<lparr>document := (document st)[itemElement (snd e) := patchOf ua be e (document st ! itemElement (snd e))],
         console := console st @ logOf be e,
         sent := sent st @ [ProgressUpdate (progressAfter (p + 1) tot)]\<rparr>,
      p + 1)"
  by (cases "fst (fetchRewrittenText (originalText (snd e)) (be (fst e)))")
     (simp_all add: rewriteItem_def patchOf_def logOf_def Let_def)

lemma rewriteItems_fold:
  "foldl (rewriteItem ua be tot) (st, p) es =
     (st\<lparr>document := patchAll ua be (document st) es,
         console := console st @ concat (map (logOf be) es),
         sent := sent st @ map (\<lambda>k. ProgressUpdate (progressAfter k tot)) [p + 1..<p + 1 + length es]\<rparr>,
      p + length es)"
proof (induction es arbitrary: st p)
  case Nil
  then show ?case by (simp add: patchAll_def)
next
  case (Cons e es)
  have upt: "[Suc p..<Suc (Suc (p + length es))] = Suc p # [Suc (Suc p)..<Suc (Suc (p + length es))]"
    by (rule upt_conv_Cons) simp
  show ?case
    by (simp add: rewriteItem_eq Cons.IH patchAll_def upt del: upt_Suc)
qed

lemma rewritePageContent_eq:
  "rewritePageContent ua be st =
     (let st1 = (if \<not> isRewritten st then storeOriginalTexts ua st else st);
          n = length (originalTexts st1)
      in (Rewritten n,
          st1\<lparr>document := patchAll ua be (document st1) (originalTexts st1),
              console := console st1 @ concat (map (logOf be) (originalTexts st1)),
              sent := sent st1 @ map ProgressUpdate (progressValues n),
              isRewritten := True\<rparr>))"
  by (simp add: rewritePageContent_def rewriteTextElementsParallel_eq sendProgress_def
      rewriteItems_fold Let_def progressValues_def comp_def)

lemma patchAll_length: "length (patchAll ua be doc es) = length doc"
  unfolding patchAll_def
  by (rule foldl_update_length [where key = "\<lambda>e. itemElement (snd e)" and f = "patchOf ua be"])

lemma patchAll_other:
  "h \<notin> set (map (\<lambda>e. itemElement (snd e)) es) \<Longrightarrow> patchAll ua be doc es ! h = doc ! h"
  unfolding patchAll_def
  by (rule foldl_update_other [where key = "\<lambda>e. itemElement (snd e)" and f = "patchOf ua be"]) simp

lemma patchAll_at:
  "distinct (map (\<lambda>e. itemElement (snd e)) es) \<Longrightarrow> e \<in> set es \<Longrightarrow>
   itemElement (snd e) < length doc \<Longrightarrow>
   patchAll ua be doc es ! itemElement (snd e) = patchOf ua be e (doc ! itemElement (snd e))"
  unfolding patchAll_def
  by (rule foldl_update_at [where key = "\<lambda>e. itemElement (snd e)" and f = "patchOf ua be"])

section \<open>The count a rewrite reports\<close>

text \<open>
  C5 as stated fails. On a page with one eligible paragraph and a backend that cannot be
  reached, every attempt is rejected, the error is logged, no patch is applied and the page
  stays as it was; the command still answers \<^verbatim>\<open>elementsRewritten: 1\<close>.
\<close>

theorem failed_element_is_counted:
  "fst (rewritePageContent simpleBrowser offline cleanPage) = Rewritten 1
   \<and> length (filter (patchApplied offline)
         (originalTexts (snd (rewritePageContent simpleBrowser offline cleanPage)))) = 0
   \<and> document (snd (rewritePageContent simpleBrowser offline cleanPage)) = document cleanPage
   \<and> console (snd (rewritePageContent simpleBrowser offline cleanPage)) = [(0, FetchRejected ''Failed to fetch'')]"
  by code_simp

text \<open>
  C5, amended. \<^verbatim>\<open>elementsRewritten\<close> is the size of the snapshot store: the number of
  elements the capture recorded (on a session that is already rewritten, the number recorded
  before), whether or not their requests failed.
\<close>

theorem elementsRewritten_is_store_size:
  "fst (rewritePageContent ua be st) =
     Rewritten (if isRewritten st then length (originalTexts st)
                else length (captured (document st)))
   \<and> fst (rewritePageContent ua be st) =
     Rewritten (length (originalTexts (snd (rewritePageContent ua be st))))"
  by (simp add: rewritePageContent_eq Let_def storeOriginalTexts_store)

section \<open>Progress\<close>

lemma percents_progress: "percents (map ProgressUpdate ps) = ps"
  by (induction ps) (simp_all add: percents_def)

lemma progressAfter_mono: "a \<le> b \<Longrightarrow> progressAfter a n \<le> progressAfter b n"
  by (simp add: progressAfter_def div_le_mono)

lemma progressAfter_bounds: "k \<le> n \<Longrightarrow> 10 \<le> progressAfter k n \<and> progressAfter k n \<le> 100"
proof (cases "n = 0")
  case True
  then show ?thesis by (simp add: progressAfter_def)
next
  case False
  assume "k \<le> n"
  then have "k * 80 \<le> n * 80" by simp
  then have "k * 80 div n \<le> n * 80 div n" by (rule div_le_mono)
  then show ?thesis using False by (simp add: progressAfter_def)
qed

lemma progressValues_sorted: "sorted (progressValues n)"
proof -
  have "sorted_wrt (\<lambda>a b. progressAfter a n \<le> progressAfter b n) [1..<n + 1]"
    by (rule sorted_wrt_mono_rel [of _ "(\<le>)"]) (simp_all add: progressAfter_mono del: upt_Suc)
  then have "sorted (map (\<lambda>k. progressAfter k n) [1..<n + 1])"
    by (simp add: sorted_map)
  then show ?thesis
    using progressAfter_bounds [of _ n]
    by (auto simp: progressValues_def sorted_append simp del: upt_Suc)
qed

lemma progressValues_last: "progressValues n \<noteq> [] \<and> last (progressValues n) = 100"
  by (simp add: progressValues_def)

lemma rewrite_sent:
  "sent (snd (rewritePageContent ua be st)) = sent st @ map ProgressUpdate
     (progressValues (length (originalTexts (snd (rewritePageContent ua be st)))))"
  by (simp add: rewritePageContent_eq Let_def storeOriginalTexts_def)

text \<open>
  C8. The progress values that one run of \<^verbatim>\<open>rewritePageContent\<close> sends are in ascending
  order and end with 100 (the failure of a single element is caught and logged, and the run
  goes on to its end); those of one run of
  \<^verbatim>\<open>summarizePageContent\<close> are in ascending order and, when the command does not fail, end
  with 100.
\<close>

theorem progress_is_monotonic:
  "sorted (percents (drop (length (sent st)) (sent (snd (rewritePageContent ua be st)))))
   \<and> percents (drop (length (sent st)) (sent (snd (rewritePageContent ua be st)))) \<noteq> []
   \<and> last (percents (drop (length (sent st)) (sent (snd (rewritePageContent ua be st))))) = 100
   \<and> sorted (percents (fst (snd (summarizePageContent mainContent sbe))))
   \<and> (\<not> surfacesFailure (fst (summarizePageContent mainContent sbe)) \<longrightarrow>
        percents (fst (snd (summarizePageContent mainContent sbe))) \<noteq> []
        \<and> last (percents (fst (snd (summarizePageContent mainContent sbe)))) = 100)"
proof -
  have r: "percents (drop (length (sent st)) (sent (snd (rewritePageContent ua be st)))) =
      progressValues (length (originalTexts (snd (rewritePageContent ua be st))))"
    by (simp add: rewrite_sent percents_progress)
  have s: "sorted (percents (fst (snd (summarizePageContent mainContent sbe))))
      \<and> (\<not> surfacesFailure (fst (summarizePageContent mainContent sbe)) \<longrightarrow>
        percents (fst (snd (summarizePageContent mainContent sbe))) \<noteq> []
        \<and> last (percents (fst (snd (summarizePageContent mainContent sbe)))) = 100)"
    by (cases "createSummary sbe"; cases "fst (createSummary sbe)")
       (simp_all add: summarizePageContent_def percents_def surfacesFailure_def)
  show ?thesis
    using s by (simp add: r progressValues_sorted progressValues_last)
qed

theorem progress_is_monotonic_witness:
  "\<not> surfacesFailure (fst (summarizePageContent (replicate 100 CHR ''a'') (online 0)))
   \<and> percents (fst (snd (summarizePageContent (replicate 100 CHR ''a'') (online 0)))) = [25, 75, 100]
   \<and> last (percents (fst (snd (summarizePageContent (replicate 100 CHR ''a'') (online 0))))) = 100
   \<and> percents (drop (length (sent cleanPage)) (sent (snd (rewritePageContent simpleBrowser online cleanPage)))) =
       [10, 90, 100]
   \<and> sorted (percents (drop (length (sent cleanPage)) (sent (snd (rewritePageContent simpleBrowser online cleanPage)))))"
proof -
  have h: "\<not> surfacesFailure (fst (summarizePageContent (replicate 100 CHR ''a'') (online 0)))"
    by code_simp
  have s: "percents (fst (snd (summarizePageContent (replicate 100 CHR ''a'') (online 0)))) =
      [25, 75, 100]"
    by code_simp
  have r: "percents (drop (length (sent cleanPage)) (sent (snd (rewritePageContent simpleBrowser online cleanPage)))) =
       [10, 90, 100]"
    by code_simp
  have t: "last (percents (fst (snd (summarizePageContent (replicate 100 CHR ''a'') (online 0))))) = 100
      \<and> sorted (percents (drop (length (sent cleanPage)) (sent (snd (rewritePageContent simpleBrowser online cleanPage)))))"
    using progress_is_monotonic [where st = cleanPage and be = online and ua = simpleBrowser
        and mainContent = "replicate 100 CHR ''a''" and sbe = "online 0"] h
    by blast
  show ?thesis
    using h s r t by blast
qed

section \<open>Reset\<close>

lemma restore_fold: "foldl (restoreItem ua) st es = st\<lparr>document := restoreAll ua (document st) es\<rparr>"
  by (induction es arbitrary: st) (simp_all add: restoreAll_def restoreItem_def Let_def)

lemma resetPageContent_eq:
  "resetPageContent ua st =
     (if isRewritten st
      then st\<lparr>document := restoreAll ua (document st) (originalTexts st), isRewritten := False\<rparr>
      else st)"
  by (simp add: resetPageContent_def restore_fold)

lemma foldl_update_keeps:
  assumes "\<And>e x. P (f e x) = P x"
  shows "h < length d \<Longrightarrow> P (foldl (\<lambda>d e. d[key e := f e (d ! key e)]) d es ! h) = P (d ! h)"
proof (induction es arbitrary: d)
  case Nil
  then show ?case by simp
next
  case (Cons x xs)
  have "P (foldl (\<lambda>d e. d[key e := f e (d ! key e)]) (d[key x := f x (d ! key x)]) xs ! h) =
      P (d[key x := f x (d ! key x)] ! h)"
    using Cons.IH [of "d[key x := f x (d ! key x)]"] Cons.prems by simp
  also have "\<dots> = P (d ! h)"
    using Cons.prems assms by (cases "h = key x") simp_all
  finally show ?case by simp
qed

lemma patchOf_tagName: "tagName (patchOf ua be e el) = tagName el"
  by (simp add: patchOf_def replaceElementTextSimple_eq split: sum.splits)

lemma patchAll_tagName: "h < length doc \<Longrightarrow> tagName (patchAll ua be doc es ! h) = tagName (doc ! h)"
  unfolding patchAll_def
  by (rule foldl_update_keeps [where P = tagName and key = "\<lambda>e. itemElement (snd e)"
        and f = "patchOf ua be"]) (rule patchOf_tagName)

lemma first_rewrite:
  assumes "\<not> isRewritten st"
  shows "rewrittenFrom ua (document st) (snd (rewritePageContent ua be st))"
  using assms
  by (simp add: rewrittenFrom_def rewritePageContent_eq Let_def storeOriginalTexts_store
      storeOf_def [symmetric] patchAll_length patchAll_other storeOf_handles
      storeOriginalTexts_document patchAll_tagName)

lemma next_rewrite:
  assumes "rewrittenFrom ua doc0 st"
  shows "rewrittenFrom ua doc0 (snd (rewritePageContent ua be st))"
  using assms
  by (simp add: rewrittenFrom_def rewritePageContent_eq Let_def patchAll_length patchAll_other
      storeOf_handles patchAll_tagName)

lemma runs_keep: "rewrittenFrom ua doc0 st \<Longrightarrow> rewrittenFrom ua doc0 (rewriteRuns ua bes st)"
  by (induction bes arbitrary: st) (simp_all add: rewriteRuns_def next_rewrite)

lemma runs_from_clean:
  "\<not> isRewritten st \<Longrightarrow> bes \<noteq> [] \<Longrightarrow> rewrittenFrom ua (document st) (rewriteRuns ua bes st)"
proof (cases bes)
  case Nil
  assume "bes \<noteq> []"
  with Nil show ?thesis by simp
next
  case (Cons be rest)
  assume "\<not> isRewritten st"
  then have "rewrittenFrom ua (document st) (snd (rewritePageContent ua be st))"
    by (rule first_rewrite)
  then have "rewrittenFrom ua (document st) (rewriteRuns ua rest (snd (rewritePageContent ua be st)))"
    by (rule runs_keep)
  then show ?thesis
    using Cons by (simp add: rewriteRuns_def)
qed

lemma restoreAll_length: "length (restoreAll ua doc es) = length doc"
  unfolding restoreAll_def
  by (rule foldl_update_length [where key = "\<lambda>e. itemElement (snd e)"
        and f = "\<lambda>e el. setInnerHTML ua el (originalHTML (snd e))"])

lemma restoreAll_other:
  "h \<notin> set (map (\<lambda>e. itemElement (snd e)) es) \<Longrightarrow> restoreAll ua doc es ! h = doc ! h"
  unfolding restoreAll_def
  by (rule foldl_update_other [where key = "\<lambda>e. itemElement (snd e)"
        and f = "\<lambda>e el. setInnerHTML ua el (originalHTML (snd e))"]) simp

lemma restoreAll_at:
  "distinct (map (\<lambda>e. itemElement (snd e)) es) \<Longrightarrow> e \<in> set es \<Longrightarrow>
   itemElement (snd e) < length doc \<Longrightarrow>
   restoreAll ua doc es ! itemElement (snd e) =
     setInnerHTML ua (doc ! itemElement (snd e)) (originalHTML (snd e))"
  unfolding restoreAll_def
  by (rule foldl_update_at [where key = "\<lambda>e. itemElement (snd e)"
        and f = "\<lambda>e el. setInnerHTML ua el (originalHTML (snd e))"])

lemma reparsed_fields:
  "tagName (reparsed ua e) = tagName e"
  "childNodes (setInnerHTML ua e' (innerHTML ua e)) =
     (if tagName e' = tagName e then childNodes (reparsed ua e)
      else childNodes (setInnerHTML ua e' (innerHTML ua e)))"
  by (simp_all add: reparsed_def setInnerHTML_def)

lemma innerHTML_cong:
  "tagName a = tagName b \<Longrightarrow> childNodes a = childNodes b \<Longrightarrow> innerHTML ua a = innerHTML ua b"
  by (simp add: innerHTML_def)

lemma reset_element:
  assumes "rewrittenFrom ua doc0 st" and "h < length doc0"
  shows "childNodes (document (resetPageContent ua st) ! h) =
           (if h \<in> set (captured doc0) then childNodes (reparsed ua (doc0 ! h))
            else childNodes (doc0 ! h))"
    and "tagName (document (resetPageContent ua st) ! h) = tagName (doc0 ! h)"
proof -
  have st: "isRewritten st" "originalTexts st = storeOf ua doc0" "length (document st) = length doc0"
    "tagName (document st ! h) = tagName (doc0 ! h)"
    using assms by (simp_all add: rewrittenFrom_def)
  have doc: "document (resetPageContent ua st) = restoreAll ua (document st) (storeOf ua doc0)"
    using st by (simp add: resetPageContent_eq)
  show "childNodes (document (resetPageContent ua st) ! h) =
           (if h \<in> set (captured doc0) then childNodes (reparsed ua (doc0 ! h))
            else childNodes (doc0 ! h))"
  proof (cases "h \<in> set (captured doc0)")
    case True
    then obtain e where e: "e \<in> set (storeOf ua doc0)" "itemElement (snd e) = h"
      using storeOf_has by blast
    have "restoreAll ua (document st) (storeOf ua doc0) ! itemElement (snd e) =
        setInnerHTML ua (document st ! itemElement (snd e)) (originalHTML (snd e))"
      using assms e st by (intro restoreAll_at storeOf_distinct) simp_all
    moreover have "originalHTML (snd e) = innerHTML ua (doc0 ! h)"
      using storeOf_entry(3) [OF e(1)] e(2) by simp
    ultimately show ?thesis
      using True e(2) st(4) by (simp add: doc reparsed_def setInnerHTML_def)
  next
    case False
    then show ?thesis
      using assms by (simp add: doc restoreAll_other storeOf_handles rewrittenFrom_def)
  qed
  show "tagName (document (resetPageContent ua st) ! h) = tagName (doc0 ! h)"
    unfolding doc restoreAll_def
    using foldl_update_keeps [where P = tagName and key = "\<lambda>e. itemElement (snd e)"
        and f = "\<lambda>e el. setInnerHTML ua el (originalHTML (snd e))" and h = h
        and d = "document st" and es = "storeOf ua doc0"] st assms(2)
    by (simp add: setInnerHTML_def)
qed


lemma restoreOne_cjs_fold: "foldl (restoreOne_cjs ua) doc es = restoreAll_cjs ua doc es"
  by (induction es arbitrary: doc) (simp_all add: restoreAll_cjs_def restoreOne_cjs_def Let_def)

lemma restoreAll_cjs_at:
  "distinct (map fst es) \<Longrightarrow> e \<in> set es \<Longrightarrow> fst e < length doc \<Longrightarrow>
   restoreAll_cjs ua doc es ! fst e =
     (if inBody (doc ! fst e) then setInnerHTML ua (doc ! fst e) (snd e) else doc ! fst e)"
  unfolding restoreAll_cjs_def
  by (rule foldl_update_at [where key = fst
        and f = "\<lambda>e el. if inBody el then setInnerHTML ua el (snd e) else el"])

lemma restoreAll_cjs_other:
  "h \<notin> fst ` set es \<Longrightarrow> restoreAll_cjs ua doc es ! h = doc ! h"
  unfolding restoreAll_cjs_def
  by (rule foldl_update_other [where key = fst
        and f = "\<lambda>e el. if inBody el then setInnerHTML ua el (snd e) else el"])

lemma restoreAll_cjs_length: "length (restoreAll_cjs ua doc es) = length doc"
  unfolding restoreAll_cjs_def
  by (rule foldl_update_length [where key = fst
        and f = "\<lambda>e el. if inBody el then setInnerHTML ua el (snd e) else el"])

lemma captured_cjs_distinct: "distinct (captured_cjs doc)"
  by (simp add: captured_cjs_def textElements_def)

lemma captured_cjs_valid: "h \<in> set (captured_cjs doc) \<Longrightarrow> h < length doc"
  by (auto simp: captured_cjs_def textElements_def)

lemma storeOf_cjs_keys: "map fst (storeOf_cjs ua doc) = captured_cjs doc"
  by (simp add: storeOf_cjs_def comp_def)

lemma store_cjs_fresh:
  "distinct els \<Longrightarrow> \<forall>h \<in> set els. \<not> has h m \<Longrightarrow>
   foldl (storeOne_cjs ua doc) m els = m @ map (\<lambda>h. (h, innerHTML ua (doc ! h))) els"
proof (induction els arbitrary: m)
  case Nil
  then show ?case by simp
next
  case (Cons h els)
  have one: "storeOne_cjs ua doc m h = m @ [(h, innerHTML ua (doc ! h))]"
    using Cons.prems by (simp add: storeOne_cjs_def has_def update_fresh)
  have "\<forall>x \<in> set els. \<not> has x (m @ [(h, innerHTML ua (doc ! h))])"
    using Cons.prems by (auto simp: has_def)
  then have "foldl (storeOne_cjs ua doc) (m @ [(h, innerHTML ua (doc ! h))]) els =
      (m @ [(h, innerHTML ua (doc ! h))]) @ map (\<lambda>h. (h, innerHTML ua (doc ! h))) els"
    using Cons.prems by (intro Cons.IH) simp_all
  then show ?case
    using one by simp
qed

lemma capture_cjs_fresh:
  "originalTexts_cjs st = [] \<Longrightarrow>
   originalTexts_cjs (storeOriginalTexts_cjs ua st) = storeOf_cjs ua (document_cjs st)"
  using store_cjs_fresh [where m = "[]" and els = "captured_cjs (document_cjs st)" and ua = ua
      and doc = "document_cjs st"]
  by (simp add: storeOriginalTexts_cjs_def Let_def storeOf_cjs_def captured_cjs_distinct has_def
      captured_cjs_def [symmetric])

text \<open>
  On a page that stays as it is, \<^verbatim>\<open>content.js\<close> finds no element to rewrite: the filter of
  \<^verbatim>\<open>rewritePageContent\<close> passes only elements that are not in the store, and the capture has
  put there every element that the rest of the filter accepts.
\<close>

lemma nothing_to_rewrite_cjs:
  assumes "originalTexts_cjs st = storeOf_cjs ua (document_cjs st)"
  shows "elementsToRewrite_cjs st = []"
proof -
  have "has el (originalTexts_cjs st)"
    if "el \<in> set (textElements (document_cjs st))" "isVisible_cjs (document_cjs st ! el)"
      "\<not> isInNav_cjs (document_cjs st ! el)" "100 < length (trim (textContent (document_cjs st ! el)))"
    for el
  proof -
    have "el \<in> set (captured_cjs (document_cjs st))"
      using that by (simp add: captured_cjs_def)
    then show ?thesis
      using assms by (simp add: has_def storeOf_cjs_keys)
  qed
  then show ?thesis
    by (auto simp: elementsToRewrite_cjs_def Let_def filter_empty_conv)
qed

lemma elementsToRewrite_cjs_sent:
  "elementsToRewrite_cjs (st\<lparr>sent_cjs := x\<rparr>) = elementsToRewrite_cjs st"
  by (simp add: elementsToRewrite_cjs_def)

lemma first_rewrite_cjs:
  assumes "\<not> isRewritten_cjs ct" and "originalTexts_cjs ct = []"
  shows "document_cjs (rewritePageContent_cjs ua be ct) = document_cjs ct
       \<and> originalTexts_cjs (rewritePageContent_cjs ua be ct) = storeOf_cjs ua (document_cjs ct)
       \<and> isRewritten_cjs (rewritePageContent_cjs ua be ct)"
proof -
  let ?st1 = "storeOriginalTexts_cjs ua ct"
  have doc: "document_cjs ?st1 = document_cjs ct"
    by (simp add: storeOriginalTexts_cjs_def Let_def)
  have store: "originalTexts_cjs ?st1 = storeOf_cjs ua (document_cjs ?st1)"
    using capture_cjs_fresh [OF assms(2)] doc by simp
  have "elementsToRewrite_cjs ?st1 = []"
    using store by (rule nothing_to_rewrite_cjs)
  then show ?thesis
    using assms(1) doc store
    by (simp add: rewritePageContent_cjs_def Let_def elementsToRewrite_cjs_sent)
qed

lemma next_rewrite_cjs:
  assumes "isRewritten_cjs ct" and "originalTexts_cjs ct = storeOf_cjs ua (document_cjs ct)"
  shows "document_cjs (rewritePageContent_cjs ua be ct) = document_cjs ct
       \<and> originalTexts_cjs (rewritePageContent_cjs ua be ct) = originalTexts_cjs ct
       \<and> isRewritten_cjs (rewritePageContent_cjs ua be ct)"
proof -
  have "elementsToRewrite_cjs ct = []"
    using assms(2) by (rule nothing_to_rewrite_cjs)
  then show ?thesis
    using assms(1)
    by (simp add: rewritePageContent_cjs_def Let_def elementsToRewrite_cjs_sent)
qed

lemma runs_keep_cjs:
  "isRewritten_cjs ct \<Longrightarrow> originalTexts_cjs ct = storeOf_cjs ua (document_cjs ct) \<Longrightarrow>
   document_cjs (rewriteRuns_cjs ua bes ct) = document_cjs ct
   \<and> originalTexts_cjs (rewriteRuns_cjs ua bes ct) = originalTexts_cjs ct
   \<and> isRewritten_cjs (rewriteRuns_cjs ua bes ct)"
proof (induction bes arbitrary: ct)
  case Nil
  then show ?case by (simp add: rewriteRuns_cjs_def)
next
  case (Cons be bes)
  let ?ct1 = "rewritePageContent_cjs ua be ct"
  have one: "document_cjs ?ct1 = document_cjs ct" "originalTexts_cjs ?ct1 = originalTexts_cjs ct"
    "isRewritten_cjs ?ct1"
    using next_rewrite_cjs [OF Cons.prems, of be] by simp_all
  have "document_cjs (rewriteRuns_cjs ua bes ?ct1) = document_cjs ?ct1
      \<and> originalTexts_cjs (rewriteRuns_cjs ua bes ?ct1) = originalTexts_cjs ?ct1
      \<and> isRewritten_cjs (rewriteRuns_cjs ua bes ?ct1)"
    using one Cons.prems by (intro Cons.IH) simp_all
  then show ?case
    using one by (simp add: rewriteRuns_cjs_def)
qed

lemma runs_from_fresh_cjs:
  assumes "\<not> isRewritten_cjs ct" and "originalTexts_cjs ct = []" and "bes \<noteq> []"
  shows "document_cjs (rewriteRuns_cjs ua bes ct) = document_cjs ct
       \<and> originalTexts_cjs (rewriteRuns_cjs ua bes ct) = storeOf_cjs ua (document_cjs ct)"
proof (cases bes)
  case Nil
  with assms(3) show ?thesis by simp
next
  case (Cons be rest)
  let ?ct1 = "rewritePageContent_cjs ua be ct"
  have one: "document_cjs ?ct1 = document_cjs ct"
    "originalTexts_cjs ?ct1 = storeOf_cjs ua (document_cjs ct)" "isRewritten_cjs ?ct1"
    using first_rewrite_cjs [OF assms(1,2), of ua be] by simp_all
  have "document_cjs (rewriteRuns_cjs ua rest ?ct1) = document_cjs ?ct1
      \<and> originalTexts_cjs (rewriteRuns_cjs ua rest ?ct1) = originalTexts_cjs ?ct1
      \<and> isRewritten_cjs (rewriteRuns_cjs ua rest ?ct1)"
    using one by (intro runs_keep_cjs) simp_all
  then show ?thesis
    using one Cons by (simp add: rewriteRuns_cjs_def)
qed

lemma reset_element_cjs:
  assumes "\<not> isRewritten_cjs ct" and "originalTexts_cjs ct = []" and "k < length (document_cjs ct)"
  shows "document_cjs (resetPageContent_cjs ua (rewriteRuns_cjs ua bes ct)) ! k =
           (if bes \<noteq> [] \<and> k \<in> set (captured_cjs (document_cjs ct)) \<and> inBody (document_cjs ct ! k)
            then reparsed ua (document_cjs ct ! k) else document_cjs ct ! k)"
proof (cases "bes = []")
  case True
  then show ?thesis
    using assms by (simp add: rewriteRuns_cjs_def resetPageContent_cjs_def)
next
  case False
  let ?doc = "document_cjs ct"
  have run: "document_cjs (rewriteRuns_cjs ua bes ct) = ?doc"
    "originalTexts_cjs (rewriteRuns_cjs ua bes ct) = storeOf_cjs ua ?doc"
    using runs_from_fresh_cjs [OF assms(1,2) False, of ua] by simp_all
  have doc: "document_cjs (resetPageContent_cjs ua (rewriteRuns_cjs ua bes ct)) =
      restoreAll_cjs ua ?doc (storeOf_cjs ua ?doc)"
    by (simp add: resetPageContent_cjs_def restoreOne_cjs_fold run)
  show ?thesis
  proof (cases "k \<in> set (captured_cjs ?doc)")
    case True
    then have e: "(k, innerHTML ua (?doc ! k)) \<in> set (storeOf_cjs ua ?doc)"
      by (simp add: storeOf_cjs_def)
    have "restoreAll_cjs ua ?doc (storeOf_cjs ua ?doc) ! fst (k, innerHTML ua (?doc ! k)) =
        (if inBody (?doc ! fst (k, innerHTML ua (?doc ! k)))
         then setInnerHTML ua (?doc ! fst (k, innerHTML ua (?doc ! k))) (snd (k, innerHTML ua (?doc ! k)))
         else ?doc ! fst (k, innerHTML ua (?doc ! k)))"
      using e assms(3) by (intro restoreAll_cjs_at) (simp_all add: storeOf_cjs_keys captured_cjs_distinct)
    then show ?thesis
      using True False by (simp add: doc reparsed_def)
  next
    case False
    then have "k \<notin> fst ` set (storeOf_cjs ua ?doc)"
      using storeOf_cjs_keys [of ua ?doc] by (metis set_map)
    then show ?thesis
      using False by (simp add: doc restoreAll_cjs_other)
  qed
qed


text \<open>
  C1 as stated fails in two points. The \<^verbatim>\<open>resetPageContent\<close> of the OpenAI variant does not
  clear the snapshot store: after a rewrite and a reset the store still holds its entry (the
  next capture starts with \<^verbatim>\<open>originalTexts.clear()\<close>). And in both variants what a reset
  puts into an element is what the parser makes of the recorded string, which need not read
  as that string again: in a paragraph where a script has put one anchor inside another, the
  parser ends the outer anchor where the inner one begins, and the markup after the reset is
  not the markup before the rewrite.
\<close>

theorem reset_keeps_store:
  "length (originalTexts (resetPageContent simpleBrowser
      (snd (rewritePageContent simpleBrowser online cleanPage)))) = 1
   \<and> childNodes (document scriptedPage ! 0) =
       [Text ''The river runs through the old town and past the mill. '',
        Elem ''a'' [(''href'', ''/outer'')]
          [Text ''Read '', Elem ''a'' [(''href'', ''/inner'')] [Text ''more'']]]
   \<and> childNodes (document (resetPageContent simpleBrowser
         (snd (rewritePageContent simpleBrowser online scriptedPage))) ! 0) =
       [Text ''The river runs through the old town and past the mill. '',
        Elem ''a'' [(''href'', ''/outer'')] [Text ''Read ''],
        Elem ''a'' [(''href'', ''/inner'')] [Text ''more'']]
   \<and> innerHTML simpleBrowser (document (resetPageContent simpleBrowser
         (snd (rewritePageContent simpleBrowser online scriptedPage))) ! 0) \<noteq>
       innerHTML simpleBrowser (document scriptedPage ! 0)
   \<and> innerHTML simpleBrowser (document_cjs (resetPageContent_cjs simpleBrowser
         (rewritePageContent_cjs simpleBrowser online freshPage_cjs)) ! 1) \<noteq>
       innerHTML simpleBrowser (document_cjs freshPage_cjs ! 1)"
proof -
  have "length (originalTexts (resetPageContent simpleBrowser
      (snd (rewritePageContent simpleBrowser online cleanPage)))) = 1"
    by code_simp
  moreover have "childNodes (document scriptedPage ! 0) =
       [Text ''The river runs through the old town and past the mill. '',
        Elem ''a'' [(''href'', ''/outer'')]
          [Text ''Read '', Elem ''a'' [(''href'', ''/inner'')] [Text ''more'']]]"
    by code_simp
  moreover have "childNodes (document (resetPageContent simpleBrowser
         (snd (rewritePageContent simpleBrowser online scriptedPage))) ! 0) =
       [Text ''The river runs through the old town and past the mill. '',
        Elem ''a'' [(''href'', ''/outer'')] [Text ''Read ''],
        Elem ''a'' [(''href'', ''/inner'')] [Text ''more'']]"
    by code_simp
  moreover have "innerHTML simpleBrowser (document (resetPageContent simpleBrowser
         (snd (rewritePageContent simpleBrowser online scriptedPage))) ! 0) \<noteq>
       innerHTML simpleBrowser (document scriptedPage ! 0)"
    by code_simp
  moreover have "innerHTML simpleBrowser (document_cjs (resetPageContent_cjs simpleBrowser
         (rewritePageContent_cjs simpleBrowser online freshPage_cjs)) ! 1) \<noteq>
       innerHTML simpleBrowser (document_cjs freshPage_cjs ! 1)"
    by code_simp
  ultimately show ?thesis
    by blast
qed

text \<open>
  C1, amended, for a page that only these scripts change. OpenAI variant: from a session
  that is not marked rewritten, after any sequence of rewrite commands, whatever the backend
  answered, the store holds for each captured element the markup it had before the first
  rewrite, and one reset assigns that markup to the element: the content of a captured
  element is what the parser makes of its markup from before the first rewrite, every other
  element is as it was, and the markup of an element reads byte for byte as before the first
  rewrite whenever the element is not captured or its markup, parsed and serialised, reads
  as itself. The reset marks the session not-rewritten; the store keeps its entries.
  \<^verbatim>\<open>content.js\<close>: from a fresh session, after any sequence of rewrite commands, one reset
  does the same to every captured element that is attached to the document, leaves every
  other element as it was, clears the store and marks the session not-rewritten.
\<close>

theorem reset_restores_captured:
  assumes "\<not> isRewritten st0" and "h < length (document st0)"
      and "\<not> isRewritten_cjs ct0" and "originalTexts_cjs ct0 = []" and "k < length (document_cjs ct0)"
  shows "(bes \<noteq> [] \<longrightarrow>
            map (\<lambda>e. (itemElement (snd e), originalHTML (snd e))) (originalTexts (rewriteRuns ua bes st0)) =
              map (\<lambda>h. (h, innerHTML ua (document st0 ! h))) (captured (document st0)))
         \<and> childNodes (document (resetPageContent ua (rewriteRuns ua bes st0)) ! h) =
             (if bes \<noteq> [] \<and> h \<in> set (captured (document st0))
              then childNodes (reparsed ua (document st0 ! h)) else childNodes (document st0 ! h))
         \<and> ((bes \<noteq> [] \<and> h \<in> set (captured (document st0)) \<longrightarrow> readsBack ua (document st0 ! h)) \<longrightarrow>
              innerHTML ua (document (resetPageContent ua (rewriteRuns ua bes st0)) ! h) =
                innerHTML ua (document st0 ! h))
         \<and> \<not> isRewritten (resetPageContent ua (rewriteRuns ua bes st0))
         \<and> originalTexts (resetPageContent ua (rewriteRuns ua bes st0)) =
             originalTexts (rewriteRuns ua bes st0)
         \<and> document_cjs (resetPageContent_cjs ua (rewriteRuns_cjs ua bes' ct0)) ! k =
             (if bes' \<noteq> [] \<and> k \<in> set (captured_cjs (document_cjs ct0)) \<and> inBody (document_cjs ct0 ! k)
              then reparsed ua (document_cjs ct0 ! k) else document_cjs ct0 ! k)
         \<and> ((bes' \<noteq> [] \<and> k \<in> set (captured_cjs (document_cjs ct0)) \<and> inBody (document_cjs ct0 ! k) \<longrightarrow>
                readsBack ua (document_cjs ct0 ! k)) \<longrightarrow>
              innerHTML ua (document_cjs (resetPageContent_cjs ua (rewriteRuns_cjs ua bes' ct0)) ! k) =
                innerHTML ua (document_cjs ct0 ! k))
         \<and> originalTexts_cjs (resetPageContent_cjs ua (rewriteRuns_cjs ua bes' ct0)) = []
         \<and> \<not> isRewritten_cjs (resetPageContent_cjs ua (rewriteRuns_cjs ua bes' ct0))"
proof -
  let ?doc0 = "document st0"
  let ?after = "document (resetPageContent ua (rewriteRuns ua bes st0)) ! h"
  have store: "bes \<noteq> [] \<longrightarrow>
      map (\<lambda>e. (itemElement (snd e), originalHTML (snd e))) (originalTexts (rewriteRuns ua bes st0)) =
        map (\<lambda>h. (h, innerHTML ua (?doc0 ! h))) (captured ?doc0)"
  proof
    assume "bes \<noteq> []"
    then have "originalTexts (rewriteRuns ua bes st0) = storeOf ua ?doc0"
      using runs_from_clean [OF assms(1), of bes ua] by (simp add: rewrittenFrom_def)
    moreover have "map snd (storeOf ua ?doc0) = map (snapshot ua ?doc0) (captured ?doc0)"
      by (simp add: storeOf_def)
    then have "map (\<lambda>i. (itemElement i, originalHTML i)) (map snd (storeOf ua ?doc0)) =
        map (\<lambda>i. (itemElement i, originalHTML i)) (map (snapshot ua ?doc0) (captured ?doc0))"
      by simp
    ultimately show "map (\<lambda>e. (itemElement (snd e), originalHTML (snd e))) (originalTexts (rewriteRuns ua bes st0)) =
        map (\<lambda>h. (h, innerHTML ua (?doc0 ! h))) (captured ?doc0)"
      by (simp add: comp_def snapshot_def)
  qed
  have fields: "childNodes ?after =
             (if bes \<noteq> [] \<and> h \<in> set (captured ?doc0)
              then childNodes (reparsed ua (?doc0 ! h)) else childNodes (?doc0 ! h))
         \<and> tagName ?after = tagName (?doc0 ! h)
         \<and> \<not> isRewritten (resetPageContent ua (rewriteRuns ua bes st0))
         \<and> originalTexts (resetPageContent ua (rewriteRuns ua bes st0)) =
             originalTexts (rewriteRuns ua bes st0)"
  proof (cases "bes = []")
    case True
    then show ?thesis
      using assms(1) by (simp add: rewriteRuns_def resetPageContent_eq)
  next
    case False
    then have r: "rewrittenFrom ua ?doc0 (rewriteRuns ua bes st0)"
      using assms(1) by (simp add: runs_from_clean)
    show ?thesis
      using reset_element [OF r assms(2)] False r
      by (simp add: resetPageContent_eq rewrittenFrom_def)
  qed
  have markup: "innerHTML ua ?after = innerHTML ua (?doc0 ! h)"
    if "bes \<noteq> [] \<and> h \<in> set (captured ?doc0) \<longrightarrow> readsBack ua (?doc0 ! h)"
  proof (cases "bes \<noteq> [] \<and> h \<in> set (captured ?doc0)")
    case True
    then have "innerHTML ua ?after = innerHTML ua (reparsed ua (?doc0 ! h))"
      using fields by (intro innerHTML_cong) (simp_all add: reparsed_fields(1))
    then show ?thesis
      using that True by (simp add: readsBack_def)
  next
    case False
    then show ?thesis
      using fields by (intro innerHTML_cong) auto
  qed
  let ?after' = "document_cjs (resetPageContent_cjs ua (rewriteRuns_cjs ua bes' ct0)) ! k"
  have cjs: "?after' =
      (if bes' \<noteq> [] \<and> k \<in> set (captured_cjs (document_cjs ct0)) \<and> inBody (document_cjs ct0 ! k)
       then reparsed ua (document_cjs ct0 ! k) else document_cjs ct0 ! k)"
    using assms(3,4,5) by (rule reset_element_cjs)
  have markup': "innerHTML ua ?after' = innerHTML ua (document_cjs ct0 ! k)"
    if "bes' \<noteq> [] \<and> k \<in> set (captured_cjs (document_cjs ct0)) \<and> inBody (document_cjs ct0 ! k) \<longrightarrow>
        readsBack ua (document_cjs ct0 ! k)"
    using that cjs by (auto simp: readsBack_def)
  show ?thesis
    using store fields markup cjs markup' by (simp add: resetPageContent_cjs_def)
qed

theorem reset_restores_captured_witness:
  "\<not> isRewritten cleanPage \<and> 0 < length (document cleanPage)
   \<and> \<not> isRewritten_cjs freshPage_cjs \<and> originalTexts_cjs freshPage_cjs = []
   \<and> 0 < length (document_cjs freshPage_cjs)
   \<and> readsBack simpleBrowser (document cleanPage ! 0)
   \<and> readsBack simpleBrowser (document_cjs freshPage_cjs ! 0)
   \<and> map (\<lambda>e. (itemElement (snd e), originalHTML (snd e)))
        (originalTexts (rewriteRuns simpleBrowser [online, offline, online] cleanPage)) =
       [(0, ''A paragraph that has forty letters in it'')]
   \<and> childNodes (document (rewriteRuns simpleBrowser [online, offline, online] cleanPage) ! 0) =
       [Text ''A short text that is simple and easy to read.'']
   \<and> innerHTML simpleBrowser (document (resetPageContent simpleBrowser
         (rewriteRuns simpleBrowser [online, offline, online] cleanPage)) ! 0) =
       ''A paragraph that has forty letters in it''
   \<and> \<not> isRewritten (resetPageContent simpleBrowser
         (rewriteRuns simpleBrowser [online, offline, online] cleanPage))
   \<and> innerHTML simpleBrowser (document_cjs (resetPageContent_cjs simpleBrowser
         (rewriteRuns_cjs simpleBrowser [online, offline] freshPage_cjs)) ! 0) =
       innerHTML simpleBrowser articleParagraph
   \<and> originalTexts_cjs (resetPageContent_cjs simpleBrowser
         (rewriteRuns_cjs simpleBrowser [online, offline] freshPage_cjs)) = []"
proof -
  have h1: "\<not> isRewritten cleanPage" and h2: "0 < length (document cleanPage)"
    and h3: "\<not> isRewritten_cjs freshPage_cjs" and h4: "originalTexts_cjs freshPage_cjs = []"
    and h5: "0 < length (document_cjs freshPage_cjs)"
    by code_simp+
  have r1: "readsBack simpleBrowser (document cleanPage ! 0)"
    by code_simp
  have r2: "readsBack simpleBrowser (document_cjs freshPage_cjs ! 0)"
    by code_simp
  have c: "captured (document cleanPage) = [0]"
    by code_simp
  have m: "innerHTML simpleBrowser (document cleanPage ! 0) = ''A paragraph that has forty letters in it''"
    by code_simp
  have p: "childNodes (document (rewriteRuns simpleBrowser [online, offline, online] cleanPage) ! 0) =
       [Text ''A short text that is simple and easy to read.'']"
    by code_simp
  have a: "document_cjs freshPage_cjs ! 0 = articleParagraph"
    by code_simp
  show ?thesis
    using reset_restores_captured [OF h1 h2 h3 h4 h5, of "[online, offline, online]" simpleBrowser
        "[online, offline]"]
      h1 h2 h3 h4 h5 r1 r2 c m p a
    by (simp add: readsBack_def)
qed

section \<open>Capture once in a session\<close>

lemma storeOne_cjs_appends: "\<exists>ys. foldl (storeOne_cjs ua doc) m els = m @ ys"
proof (induction els arbitrary: m)
  case Nil
  then show ?case by simp
next
  case (Cons h els)
  obtain ys where "foldl (storeOne_cjs ua doc) (storeOne_cjs ua doc m h) els = storeOne_cjs ua doc m h @ ys"
    using Cons.IH by blast
  moreover have "\<exists>zs. storeOne_cjs ua doc m h = m @ zs"
    by (simp add: storeOne_cjs_def has_def update_fresh)
  ultimately show ?case by auto
qed

lemma storeOriginalTexts_cjs_keeps:
  "take (length (originalTexts_cjs st)) (originalTexts_cjs (storeOriginalTexts_cjs ua st)) =
     originalTexts_cjs st"
proof -
  obtain ys where "originalTexts_cjs (storeOriginalTexts_cjs ua st) = originalTexts_cjs st @ ys"
    using storeOne_cjs_appends by (fastforce simp: storeOriginalTexts_cjs_def Let_def)
  then show ?thesis by simp
qed

text \<open>
  C2 as stated fails for \<^verbatim>\<open>storeOriginalTexts\<close> of the OpenAI variant, which clears the store
  and records the page as it is now. Called a second time after the paragraph has been
  rewritten, it records the rewritten text as the original.
\<close>

theorem second_capture_overwrites:
  "map (\<lambda>e. originalHTML (snd e)) (originalTexts (storeOriginalTexts simpleBrowser cleanPage)) =
     [''A paragraph that has forty letters in it'']
   \<and> map (\<lambda>e. originalHTML (snd e)) (originalTexts (storeOriginalTexts simpleBrowser
        ((storeOriginalTexts simpleBrowser cleanPage)\<lparr>document := [rewrittenParagraph]\<rparr>))) =
     [''A short text that is simple and easy to read.'']"
  by code_simp

text \<open>
  C2, amended. In \<^verbatim>\<open>content.js\<close> a second capture, on whatever the page has become, keeps
  every entry of the first with its markup and in its place; it only adds entries for
  elements not yet recorded. In the OpenAI variant the capture itself rebuilds the store, and
  it is its caller that keeps the originals: \<^verbatim>\<open>rewritePageContent\<close> leaves the session marked
  rewritten, and on a session marked rewritten it does not capture, so a second rewrite,
  on whatever the page has become, leaves the store as the first one left it.
\<close>

theorem capture_is_not_repeated:
  "take (length (originalTexts_cjs (storeOriginalTexts_cjs ua ct)))
        (originalTexts_cjs (storeOriginalTexts_cjs ua
           ((storeOriginalTexts_cjs ua ct)\<lparr>document_cjs := doc'\<rparr>))) =
     originalTexts_cjs (storeOriginalTexts_cjs ua ct)
   \<and> isRewritten (snd (rewritePageContent ua be1 st))
   \<and> originalTexts (snd (rewritePageContent ua be2
        ((snd (rewritePageContent ua be1 st))\<lparr>document := doc''\<rparr>))) =
     originalTexts (snd (rewritePageContent ua be1 st))"
proof -
  have "take (length (originalTexts_cjs (storeOriginalTexts_cjs ua ct)))
        (originalTexts_cjs (storeOriginalTexts_cjs ua
           ((storeOriginalTexts_cjs ua ct)\<lparr>document_cjs := doc'\<rparr>))) =
     originalTexts_cjs (storeOriginalTexts_cjs ua ct)"
    using storeOriginalTexts_cjs_keeps [of "(storeOriginalTexts_cjs ua ct)\<lparr>document_cjs := doc'\<rparr>"]
    by simp
  then show ?thesis
    by (simp add: rewritePageContent_eq Let_def)
qed


section \<open>Inline style across rewrite and reset\<close>

text \<open>
  C10 as stated fails in its last words, that the inner markup is restored: in the paragraph
  where a script has put one anchor inside another, the style stays as the patch set it, and
  the markup after the reset is not the markup before the rewrite either.
\<close>

theorem reset_reparses_markup:
  "styleTransition (document scriptedPage ! 0) = []
   \<and> styleTransition (document (resetPageContent simpleBrowser
         (snd (rewritePageContent simpleBrowser online scriptedPage))) ! 0) = ''opacity 0.2s ease''
   \<and> querySelectorAll_a (document scriptedPage ! 0) =
       [Elem ''a'' [(''href'', ''/outer'')]
          [Text ''Read '', Elem ''a'' [(''href'', ''/inner'')] [Text ''more'']],
        Elem ''a'' [(''href'', ''/inner'')] [Text ''more'']]
   \<and> querySelectorAll_a (document (resetPageContent simpleBrowser
         (snd (rewritePageContent simpleBrowser online scriptedPage))) ! 0) =
       [Elem ''a'' [(''href'', ''/outer'')] [Text ''Read ''],
        Elem ''a'' [(''href'', ''/inner'')] [Text ''more'']]
   \<and> innerHTML simpleBrowser (document (resetPageContent simpleBrowser
         (snd (rewritePageContent simpleBrowser online scriptedPage))) ! 0) \<noteq>
       innerHTML simpleBrowser (document scriptedPage ! 0)"
proof -
  have "styleTransition (document scriptedPage ! 0) = []"
    by code_simp
  moreover have "styleTransition (document (resetPageContent simpleBrowser
         (snd (rewritePageContent simpleBrowser online scriptedPage))) ! 0) = ''opacity 0.2s ease''"
    by code_simp
  moreover have "querySelectorAll_a (document scriptedPage ! 0) =
       [Elem ''a'' [(''href'', ''/outer'')]
          [Text ''Read '', Elem ''a'' [(''href'', ''/inner'')] [Text ''more'']],
        Elem ''a'' [(''href'', ''/inner'')] [Text ''more'']]"
    by code_simp
  moreover have "querySelectorAll_a (document (resetPageContent simpleBrowser
         (snd (rewritePageContent simpleBrowser online scriptedPage))) ! 0) =
       [Elem ''a'' [(''href'', ''/outer'')] [Text ''Read ''],
        Elem ''a'' [(''href'', ''/inner'')] [Text ''more'']]"
    by code_simp
  moreover have "innerHTML simpleBrowser (document (resetPageContent simpleBrowser
         (snd (rewritePageContent simpleBrowser online scriptedPage))) ! 0) \<noteq>
       innerHTML simpleBrowser (document scriptedPage ! 0)"
    by code_simp
  ultimately show ?thesis
    by blast
qed

text \<open>
  C10, amended. The patch of the OpenAI variant puts the new text and the former anchors in
  the place of the content of the element and sets \<^verbatim>\<open>style.transition\<close> and \<^verbatim>\<open>style.opacity\<close>.
  The reset assigns the recorded markup to \<^verbatim>\<open>innerHTML\<close> and nothing else: an element that a
  rewrite has patched and a reset has restored is the element as it was before the rewrite
  with its own markup assigned to it, except for its inline style, which stays as the patch
  set it (\<^verbatim>\<open>opacity\<close> becomes \<^verbatim>\<open>'1'\<close> once the timer of the patch has run). Its markup reads
  as before the rewrite whenever that markup, parsed and serialised, reads as itself.
\<close>

theorem reset_leaves_style:
  assumes "\<not> isRewritten st0"
      and "(index, it) \<in> set (originalTexts (snd (rewritePageContent ua be st0)))"
      and "fst (fetchRewrittenText (originalText it) (be index)) = Inr newText"
  shows "document (snd (rewritePageContent ua be st0)) ! itemElement it =
           (document st0 ! itemElement it)
             \<lparr>childNodes := Text (trim newText) #
                concat (map (\<lambda>link. [Text '' '', link]) (querySelectorAll_a (document st0 ! itemElement it))),
              styleTransition := ''opacity 0.2s ease'', styleOpacity := ''0.9'',
              opacityTimers := opacityTimers (document st0 ! itemElement it) + 1\<rparr>
         \<and> document (resetPageContent ua (snd (rewritePageContent ua be st0))) ! itemElement it =
           (reparsed ua (document st0 ! itemElement it))
             \<lparr>styleTransition := ''opacity 0.2s ease'', styleOpacity := ''0.9'',
              opacityTimers := opacityTimers (document st0 ! itemElement it) + 1\<rparr>
         \<and> (readsBack ua (document st0 ! itemElement it) \<longrightarrow>
              innerHTML ua (document (resetPageContent ua (snd (rewritePageContent ua be st0))) ! itemElement it) =
                innerHTML ua (document st0 ! itemElement it))
         \<and> styleTransition (document (resetPageContent ua (snd (rewritePageContent ua be st0))) ! itemElement it) =
           ''opacity 0.2s ease''
         \<and> styleOpacity (document (resetPageContent ua (snd (rewritePageContent ua be st0))) ! itemElement it) =
           ''0.9''
         \<and> styleOpacity (timersFired
             (document (resetPageContent ua (snd (rewritePageContent ua be st0))) ! itemElement it)) = ''1''"
proof -
  let ?doc0 = "document st0"
  let ?st1 = "snd (rewritePageContent ua be st0)"
  let ?e = "(index, it)"
  let ?h = "itemElement it"
  have st1: "originalTexts ?st1 = storeOf ua ?doc0" "isRewritten ?st1"
    "document ?st1 = patchAll ua be ?doc0 (storeOf ua ?doc0)"
    using assms(1)
    by (simp_all add: rewritePageContent_eq Let_def storeOriginalTexts_store storeOf_def
        storeOriginalTexts_document)
  have e: "?e \<in> set (storeOf ua ?doc0)"
    using assms(2) st1(1) by simp
  have cap: "?h \<in> set (captured ?doc0)"
    and otext: "originalText it = textContent (?doc0 ! ?h)"
    and ohtml: "originalHTML it = innerHTML ua (?doc0 ! ?h)"
    using storeOf_entry [OF e] by simp_all
  have h: "?h < length ?doc0" and c: "captures (?doc0 ! ?h)"
    using captured_valid [OF cap] by simp_all
  have "25 < length (trim (textContent (?doc0 ! ?h)))"
    using c by (simp add: captures_def)
  then have long: "10 < length (trim (originalText it))"
    using otext by simp
  have "patchAll ua be ?doc0 (storeOf ua ?doc0) ! itemElement (snd ?e) =
      patchOf ua be ?e (?doc0 ! itemElement (snd ?e))"
    using e h by (intro patchAll_at storeOf_distinct) simp_all
  then have p: "patchAll ua be ?doc0 (storeOf ua ?doc0) ! ?h =
      replaceElementTextSimple ua (?doc0 ! ?h) newText"
    using long assms(3) by (simp add: patchOf_def)
  have patched: "document ?st1 ! ?h =
      (?doc0 ! ?h)\<lparr>childNodes := Text (trim newText) #
                concat (map (\<lambda>link. [Text '' '', link]) (querySelectorAll_a (?doc0 ! ?h))),
              styleTransition := ''opacity 0.2s ease'', styleOpacity := ''0.9'',
              opacityTimers := opacityTimers (?doc0 ! ?h) + 1\<rparr>"
    by (simp add: st1(3) p replaceElementTextSimple_eq)
  have "restoreAll ua (document ?st1) (storeOf ua ?doc0) ! itemElement (snd ?e) =
      setInnerHTML ua (document ?st1 ! itemElement (snd ?e)) (originalHTML (snd ?e))"
    using e h by (intro restoreAll_at storeOf_distinct) (simp_all add: st1(3) patchAll_length)
  then have r: "document (resetPageContent ua ?st1) ! ?h =
      (reparsed ua (?doc0 ! ?h))\<lparr>styleTransition := ''opacity 0.2s ease'', styleOpacity := ''0.9'',
              opacityTimers := opacityTimers (?doc0 ! ?h) + 1\<rparr>"
    using ohtml
    by (simp add: resetPageContent_eq st1(1,2) patched reparsed_def setInnerHTML_def)
  have m: "innerHTML ua (document (resetPageContent ua ?st1) ! ?h) = innerHTML ua (?doc0 ! ?h)"
    if "readsBack ua (?doc0 ! ?h)"
    using that by (simp add: r readsBack_def innerHTML_def)
  show ?thesis
    using patched m by (simp add: r timersFired_def)
qed

theorem reset_leaves_style_witness:
  "\<not> isRewritten cleanPage
   \<and> readsBack simpleBrowser (document cleanPage ! 0)
   \<and> childNodes (document cleanPage ! 0) = [Text ''A paragraph that has forty letters in it'']
   \<and> styleTransition (document cleanPage ! 0) = []
   \<and> styleOpacity (document cleanPage ! 0) = []
   \<and> childNodes (document (snd (rewritePageContent simpleBrowser online cleanPage)) ! 0) =
       [Text ''A short text that is simple and easy to read.'']
   \<and> childNodes (document (resetPageContent simpleBrowser
         (snd (rewritePageContent simpleBrowser online cleanPage))) ! 0) =
       [Text ''A paragraph that has forty letters in it'']
   \<and> innerHTML simpleBrowser (document (resetPageContent simpleBrowser
         (snd (rewritePageContent simpleBrowser online cleanPage))) ! 0) =
       ''A paragraph that has forty letters in it''
   \<and> styleTransition (document (resetPageContent simpleBrowser
         (snd (rewritePageContent simpleBrowser online cleanPage))) ! 0) = ''opacity 0.2s ease''
   \<and> styleOpacity (document (resetPageContent simpleBrowser
         (snd (rewritePageContent simpleBrowser online cleanPage))) ! 0) = ''0.9''"
proof -
  let ?it = "\<lparr>itemElement = 0, originalText = ''A paragraph that has forty letters in it'',
              originalHTML = ''A paragraph that has forty letters in it'',
              itemTagName = ''p''\<rparr>"
  have h1: "\<not> isRewritten cleanPage"
    by code_simp
  have h2: "(0, ?it) \<in> set (originalTexts (snd (rewritePageContent simpleBrowser online cleanPage)))"
    by code_simp
  have h3: "fst (fetchRewrittenText (originalText ?it) (online 0)) =
      Inr ''A short text that is simple and easy to read.''"
    by code_simp
  have rb: "readsBack simpleBrowser (document cleanPage ! 0)"
    by code_simp
  have page: "childNodes (document cleanPage ! 0) = [Text ''A paragraph that has forty letters in it'']"
    "styleTransition (document cleanPage ! 0) = []" "styleOpacity (document cleanPage ! 0) = []"
    "innerHTML simpleBrowser (document cleanPage ! 0) = ''A paragraph that has forty letters in it''"
    "querySelectorAll_a (document cleanPage ! 0) = []"
    "trim ''A short text that is simple and easy to read.'' = ''A short text that is simple and easy to read.''"
    "childNodes (reparsed simpleBrowser (document cleanPage ! 0)) =
       [Text ''A paragraph that has forty letters in it'']"
    by code_simp+
  show ?thesis
    using reset_leaves_style [OF h1 h2 h3] h1 rb page
    by (simp add: innerHTML_def readsBack_def reparsed_fields(1))
qed

end
